theory Spec2Isabelle
  imports Complex_Main
begin

section \<open>Session manager: data model\<close>

text \<open>
  The session provider keeps a list of accounts and the currently active one in a React
  state cell. An account is a \<open>SessionAccount\<close> (the persisted account shape); the
  backend client exposes its session as an \<open>AtpSessionData\<close> value whose two tokens are
  always present and whose \<open>email\<close> and \<open>emailConfirmed\<close> are optional.
  An absent JavaScript value (\<open>undefined\<close>) is \<open>None\<close>.
\<close>

record SessionAccount =
  service :: string
  did :: string
  handle :: string
  email :: "string option"
  emailConfirmed :: "bool option"
  refreshJwt :: "string option"
  accessJwt :: "string option"

record AtpSessionData =
  session_refreshJwt :: string
  session_accessJwt :: string
  session_handle :: string
  session_did :: string
  session_email :: "string option"
  session_emailConfirmed :: "bool option"

record SessionState =
  isInitialLoad :: bool
  isSwitchingAccounts :: bool
  accounts :: "SessionAccount list"
  currentAccount :: "SessionAccount option"

text \<open>The argument of \<open>updateCurrentAccount\<close>: a partial pick of three account fields.\<close>

record AccountPatch =
  patch_handle :: "string option"
  patch_email :: "string option"
  patch_emailConfirmed :: "bool option"

subsection \<open>JavaScript's \<open>||\<close> on optional strings and booleans\<close>

text \<open>
  \<open>a || b\<close> yields \<open>a\<close> when \<open>a\<close> is truthy and \<open>b\<close> otherwise. An absent value, the
  empty string and \<open>false\<close> are falsy.
\<close>

definition or_string :: "string option \<Rightarrow> string \<Rightarrow> string" where
  "or_string a b = (case a of None \<Rightarrow> b | Some s \<Rightarrow> if s = [] then b else s)"

definition or_string_opt :: "string option \<Rightarrow> string option \<Rightarrow> string option" where
  "or_string_opt a b = (case a of None \<Rightarrow> b | Some s \<Rightarrow> if s = [] then b else Some s)"

definition or_bool_opt :: "bool option \<Rightarrow> bool option \<Rightarrow> bool option" where
  "or_bool_opt a b = (case a of Some True \<Rightarrow> Some True | _ \<Rightarrow> b)"

definition or_false :: "bool option \<Rightarrow> bool" where
  "or_false a = (case a of Some True \<Rightarrow> True | _ \<Rightarrow> False)"

subsection \<open>State updaters\<close>

text \<open>
  Every change of the state cell is a function handed to \<open>setState\<close>. The updaters the
  provider uses are listed as data, one constructor per arrow function of the source,
  and \<open>apply_updater\<close> runs one on a state.
\<close>

datatype updater =
    UpsertAccount SessionAccount bool
  | ClearCurrentAccount
  | StripTokens
  | RemoveAccount SessionAccount
  | UpdateCurrentAccount AccountPatch
  | SetIsInitialLoad bool
  | SetIsSwitchingAccounts bool

fun apply_updater :: "updater \<Rightarrow> SessionState \<Rightarrow> SessionState" where
  "apply_updater (UpsertAccount account expired) s =
     s\<lparr>currentAccount := (if expired then None else Some account),
       accounts := account # filter (\<lambda>a. did a \<noteq> did account) (accounts s)\<rparr>"
| "apply_updater ClearCurrentAccount s = s\<lparr>currentAccount := None\<rparr>"
| "apply_updater StripTokens s =
     s\<lparr>accounts := map (\<lambda>a. a\<lparr>refreshJwt := None, accessJwt := None\<rparr>) (accounts s)\<rparr>"
| "apply_updater (RemoveAccount account) s =
     s\<lparr>accounts := filter (\<lambda>a. did a \<noteq> did account) (accounts s)\<rparr>"
| "apply_updater (UpdateCurrentAccount account) s =
     (case currentAccount s of
        None \<Rightarrow> s
      | Some current \<Rightarrow>
          (let updatedAccount = current
                 \<lparr>handle := or_string (patch_handle account) (handle current),
                  email := or_string_opt (patch_email account) (email current),
                  emailConfirmed :=
                    (case patch_emailConfirmed account of
                       Some c \<Rightarrow> Some c
                     | None \<Rightarrow> emailConfirmed current)\<rparr>
           in s\<lparr>currentAccount := Some updatedAccount,
                accounts := updatedAccount # filter (\<lambda>a. did a \<noteq> did current) (accounts s)\<rparr>))"
| "apply_updater (SetIsInitialLoad v) s = s\<lparr>isInitialLoad := v\<rparr>"
| "apply_updater (SetIsSwitchingAccounts v) s = s\<lparr>isSwitchingAccounts := v\<rparr>"

subsection \<open>The provider's world\<close>

text \<open>
  Besides the state cell the provider touches the module-level agent, the dirty flag,
  the query cache, the two session event emitters and the error log. \<open>setStateCalls\<close>
  records the updaters in the order \<open>setState\<close> received them. Queued updaters run in
  that order, so each is applied as it is handed over. The effect that writes a dirty
  state to the persistence adapter and debug logging are left out.
\<close>

text \<open>
  An agent built by the provider carries its service, its session and the account that
  its persist-session handler captured.
\<close>

datatype agent = PUBLIC_BSKY_AGENT | BskyAgent string "AtpSessionData option" SessionAccount

datatype emission = SessionLoaded SessionAccount | SessionDropped

record world =
  state :: SessionState
  setStateCalls :: "updater list"
  isDirty :: bool
  globalAgent :: agent
  queryClears :: nat
  emitted :: "emission list"
  errorLog :: "string list"

definition setState :: "updater \<Rightarrow> world \<Rightarrow> world" where
  "setState fn w =
     w\<lparr>state := apply_updater fn (state w), setStateCalls := setStateCalls w @ [fn]\<rparr>"

definition setStateAndPersist :: "updater \<Rightarrow> world \<Rightarrow> world" where
  "setStateAndPersist fn w = setState fn (w\<lparr>isDirty := True\<rparr>)"

definition queryClient_clear :: "world \<Rightarrow> world" where
  "queryClient_clear w = w\<lparr>queryClears := Suc (queryClears w)\<rparr>"

definition emitSessionLoaded :: "SessionAccount \<Rightarrow> world \<Rightarrow> world" where
  "emitSessionLoaded account w = w\<lparr>emitted := emitted w @ [SessionLoaded account]\<rparr>"

definition emitSessionDropped :: "world \<Rightarrow> world" where
  "emitSessionDropped w = w\<lparr>emitted := emitted w @ [SessionDropped]\<rparr>"

definition logger_error :: "string \<Rightarrow> world \<Rightarrow> world" where
  "logger_error msg w = w\<lparr>errorLog := errorLog w @ [msg]\<rparr>"

text \<open>The provider's first state: the persisted accounts, logged out, resuming.\<close>

definition initialState :: "SessionAccount list \<Rightarrow> SessionState" where
  "initialState persistedAccounts =
     \<lparr>isInitialLoad = True, isSwitchingAccounts = False,
      accounts = persistedAccounts, currentAccount = None\<rparr>"

definition initialWorld :: "SessionAccount list \<Rightarrow> world" where
  "initialWorld persistedAccounts =
     \<lparr>state = initialState persistedAccounts, setStateCalls = [], isDirty = False,
      globalAgent = PUBLIC_BSKY_AGENT, queryClears = 0, emitted = [], errorLog = []\<rparr>"

section \<open>The backend client\<close>

text \<open>
  The client is an external collaborator. Its calls either throw or return, leaving
  \<open>agent.session\<close> present or absent; while a resume call runs, the client may invoke the
  persist-session handler it was constructed with. A \<open>backend\<close> fixes these answers:
  what each call does for its arguments (and, for resume, for the number of the attempt).
\<close>

datatype client_failure = NetworkError | RequestError string

datatype call_outcome = Throws client_failure | Returns "AtpSessionData option"

datatype error = ClientFailure client_failure | EstablishmentError string

record CreateAccountProps =
  create_service :: string
  create_email :: string
  create_password :: string
  create_handle :: string
  create_inviteCode :: "string option"

record LoginProps =
  login_service :: string
  login_identifier :: string
  login_password :: string

record ResumeArgs =
  resume_accessJwt :: string
  resume_refreshJwt :: string
  resume_did :: string
  resume_handle :: string

record ResumeAttempt =
  persistEvents :: "(string \<times> AtpSessionData option) list"
  outcome :: call_outcome

record backend =
  serviceToString :: "string \<Rightarrow> string"
  createAccountCall :: "CreateAccountProps \<Rightarrow> call_outcome"
  loginCall :: "LoginProps \<Rightarrow> call_outcome"
  resumeSessionCall :: "string \<Rightarrow> ResumeArgs \<Rightarrow> nat \<Rightarrow> ResumeAttempt"

definition isNetworkError :: "client_failure \<Rightarrow> bool" where
  "isNetworkError e = (case e of NetworkError \<Rightarrow> True | RequestError _ \<Rightarrow> False)"

text \<open>
  Modelled from the spec: \<open>networkRetry\<close> of \<open>lib/async/retry\<close>, which the provider
  imports. The spec gives it as retrying the call with the same arguments on a transient
  (network) failure, up to the given number of attempts, and surfacing the failure of the
  last attempt; any other failure surfaces at once. \<open>i\<close> numbers the attempts. State
  changes made during a failed attempt stay.
\<close>

fun networkRetry ::
  "nat \<Rightarrow> (nat \<Rightarrow> world \<Rightarrow> (client_failure + 'a) \<times> world) \<Rightarrow> nat \<Rightarrow> world
    \<Rightarrow> (client_failure + 'a) \<times> world" where
  "networkRetry retries fn i w =
     (case fn i w of
        (Inr v, w') \<Rightarrow> (Inr v, w')
      | (Inl e, w') \<Rightarrow>
          (case retries of
             Suc (Suc n) \<Rightarrow>
               if isNetworkError e then networkRetry (Suc n) fn (Suc i) w' else (Inl e, w')
           | _ \<Rightarrow> (Inl e, w')))"

section \<open>The session provider's operations\<close>

subsection \<open>The persist-session handler\<close>

definition persistSession_expired :: "string \<Rightarrow> bool" where
  "persistSession_expired event = (\<not> (event = ''create'' \<or> event = ''update''))"

definition persistSession_refreshedAccount ::
  "SessionAccount \<Rightarrow> AtpSessionData option \<Rightarrow> SessionAccount" where
  "persistSession_refreshedAccount account session =
     \<lparr>service = service account,
      did = or_string (map_option session_did session) (did account),
      handle = or_string (map_option session_handle session) (handle account),
      email = or_string_opt (Option.bind session session_email) (email account),
      emailConfirmed =
        or_bool_opt (Option.bind session session_emailConfirmed) (emailConfirmed account),
      refreshJwt = map_option session_refreshJwt session,
      accessJwt = map_option session_accessJwt session\<rparr>"

definition createPersistSessionHandler ::
  "SessionAccount \<Rightarrow> (bool \<Rightarrow> SessionAccount \<Rightarrow> world \<Rightarrow> world)
    \<Rightarrow> string \<Rightarrow> AtpSessionData option \<Rightarrow> world \<Rightarrow> world" where
  "createPersistSessionHandler account persistSessionCallback event session w =
     (let expired = persistSession_expired event;
          refreshedAccount = persistSession_refreshedAccount account session;
          w1 = (if expired then emitSessionDropped w else w)
      in persistSessionCallback expired refreshedAccount w1)"

subsection \<open>Upsert and the handler the provider registers\<close>

definition upsertAccount :: "SessionAccount \<Rightarrow> bool \<Rightarrow> world \<Rightarrow> world" where
  "upsertAccount account expired w = setStateAndPersist (UpsertAccount account expired) w"

definition persistHandler ::
  "SessionAccount \<Rightarrow> string \<Rightarrow> AtpSessionData option \<Rightarrow> world \<Rightarrow> world" where
  "persistHandler account =
     createPersistSessionHandler account
       (\<lambda>expired refreshedAccount. upsertAccount refreshedAccount expired)"

subsection \<open>createAccount and login\<close>

definition createAccount ::
  "backend \<Rightarrow> CreateAccountProps \<Rightarrow> world \<Rightarrow> (error + unit) \<times> world" where
  "createAccount b props w =
     (case createAccountCall b props of
        Throws e \<Rightarrow> (Inl (ClientFailure e), w)
      | Returns None \<Rightarrow>
          (Inl (EstablishmentError ''session: createAccount failed to establish a session''), w)
      | Returns (Some session) \<Rightarrow>
          (let account =
                 \<lparr>service = serviceToString b (create_service props),
                  did = session_did session,
                  handle = session_handle session,
                  email = session_email session,
                  emailConfirmed = Some False,
                  refreshJwt = Some (session_refreshJwt session),
                  accessJwt = Some (session_accessJwt session)\<rparr>;
               w1 = w\<lparr>globalAgent := BskyAgent (create_service props) (Some session) account\<rparr>;
               w2 = queryClient_clear w1;
               w3 = upsertAccount account False w2;
               w4 = emitSessionLoaded account w3
           in (Inr (), w4)))"

definition login :: "backend \<Rightarrow> LoginProps \<Rightarrow> world \<Rightarrow> (error + unit) \<times> world" where
  "login b props w =
     (case loginCall b props of
        Throws e \<Rightarrow> (Inl (ClientFailure e), w)
      | Returns None \<Rightarrow>
          (Inl (EstablishmentError ''session: login failed to establish a session''), w)
      | Returns (Some session) \<Rightarrow>
          (let account =
                 \<lparr>service = serviceToString b (login_service props),
                  did = session_did session,
                  handle = session_handle session,
                  email = session_email session,
                  emailConfirmed = Some (or_false (session_emailConfirmed session)),
                  refreshJwt = Some (session_refreshJwt session),
                  accessJwt = Some (session_accessJwt session)\<rparr>;
               w1 = w\<lparr>globalAgent := BskyAgent (login_service props) (Some session) account\<rparr>;
               w2 = queryClient_clear w1;
               w3 = upsertAccount account False w2;
               w4 = emitSessionLoaded account w3
           in (Inr (), w4)))"

subsection \<open>clearCurrentAccount and logout\<close>

definition clearCurrentAccount :: "world \<Rightarrow> world" where
  "clearCurrentAccount w =
     (let w1 = w\<lparr>globalAgent := PUBLIC_BSKY_AGENT\<rparr>;
          w2 = queryClient_clear w1
      in setStateAndPersist ClearCurrentAccount w2)"

definition logout :: "world \<Rightarrow> (error + unit) \<times> world" where
  "logout w = (Inr (), setStateAndPersist StripTokens (clearCurrentAccount w))"

subsection \<open>initSession, resumeSession, selectAccount\<close>

text \<open>
  One call of \<open>agent.resumeSession\<close>: the client delivers the attempt's events to the
  handler bound to \<open>account\<close>, in order, and then throws or returns.
\<close>

definition agent_resumeSession ::
  "backend \<Rightarrow> SessionAccount \<Rightarrow> ResumeArgs \<Rightarrow> nat \<Rightarrow> world
    \<Rightarrow> (client_failure + AtpSessionData option) \<times> world" where
  "agent_resumeSession b account args i w =
     (let attempt = resumeSessionCall b (service account) args i;
          w' = fold (\<lambda>(event, session). persistHandler account event session)
                 (persistEvents attempt) w
      in case outcome attempt of
           Throws e \<Rightarrow> (Inl e, w')
         | Returns session \<Rightarrow> (Inr session, w'))"

definition resumeArgs :: "SessionAccount \<Rightarrow> ResumeArgs" where
  "resumeArgs account =
     \<lparr>resume_accessJwt = or_string (accessJwt account) [],
      resume_refreshJwt = or_string (refreshJwt account) [],
      resume_did = did account,
      resume_handle = handle account\<rparr>"

definition initSession :: "backend \<Rightarrow> SessionAccount \<Rightarrow> world \<Rightarrow> (error + unit) \<times> world" where
  "initSession b account w =
     (case networkRetry 3 (agent_resumeSession b account (resumeArgs account)) 0 w of
        (Inl e, w1) \<Rightarrow> (Inl (ClientFailure e), w1)
      | (Inr None, w1) \<Rightarrow>
          (Inl (EstablishmentError ''session: initSession failed to establish a session''), w1)
      | (Inr (Some session), w1) \<Rightarrow>
          (let freshAccount =
                 \<lparr>service = serviceToString b (service account),
                  did = session_did session,
                  handle = session_handle session,
                  email = session_email session,
                  emailConfirmed = Some (or_false (session_emailConfirmed session)),
                  refreshJwt = Some (session_refreshJwt session),
                  accessJwt = Some (session_accessJwt session)\<rparr>;
               w2 = w1\<lparr>globalAgent := BskyAgent (service account) (Some session) account\<rparr>;
               w3 = queryClient_clear w2;
               w4 = upsertAccount freshAccount False w3;
               w5 = emitSessionLoaded freshAccount w4
           in (Inr (), w5)))"

definition resumeSession ::
  "backend \<Rightarrow> SessionAccount option \<Rightarrow> world \<Rightarrow> (error + unit) \<times> world" where
  "resumeSession b account w =
     (let (r, w1) = (case account of
                       Some a \<Rightarrow> initSession b a w
                     | None \<Rightarrow> (Inr (), w));
          w2 = (case r of
                  Inl e \<Rightarrow> logger_error ''session: resumeSession failed'' w1
                | Inr _ \<Rightarrow> w1)
      in (Inr (), setState (SetIsInitialLoad False) w2))"

definition selectAccount :: "backend \<Rightarrow> SessionAccount \<Rightarrow> world \<Rightarrow> (error + unit) \<times> world" where
  "selectAccount b account w =
     (let w1 = setState (SetIsSwitchingAccounts True) w
      in case initSession b account w1 of
           (Inr u, w2) \<Rightarrow> (Inr (), setState (SetIsSwitchingAccounts False) w2)
         | (Inl e, w2) \<Rightarrow> (Inl e, setState (SetIsSwitchingAccounts False) w2))"

subsection \<open>removeAccount and updateCurrentAccount\<close>

definition removeAccount :: "SessionAccount \<Rightarrow> world \<Rightarrow> world" where
  "removeAccount account w = setStateAndPersist (RemoveAccount account) w"

definition updateCurrentAccount :: "AccountPatch \<Rightarrow> world \<Rightarrow> world" where
  "updateCurrentAccount account w = setStateAndPersist (UpdateCurrentAccount account) w"

subsection \<open>The listener for external persistence updates\<close>

record PersistedSession =
  persisted_accounts :: "SessionAccount list"
  persisted_currentAccount :: "SessionAccount option"

datatype listener_call = CallInitSession SessionAccount | CallClearCurrentAccount

text \<open>
  The calls the listener makes for the persisted record it reads and the state it
  closed over. In the second branch the source also tests that the persisted record has
  no current account, which the \<open>else\<close> already gives.
\<close>

definition onUpdate_calls :: "PersistedSession \<Rightarrow> SessionState \<Rightarrow> listener_call list" where
  "onUpdate_calls session s =
     (case persisted_currentAccount session of
        Some persistedCurrent \<Rightarrow>
          (if Some (did persistedCurrent) \<noteq> map_option did (currentAccount s)
           then [CallInitSession persistedCurrent] else [])
      | None \<Rightarrow>
          (if currentAccount s \<noteq> None then [CallClearCurrentAccount] else []))"

text \<open>The listener does not await \<open>initSession\<close>: a rejection is dropped.\<close>

fun run_call :: "backend \<Rightarrow> listener_call \<Rightarrow> world \<Rightarrow> world" where
  "run_call b (CallInitSession account) w = snd (initSession b account w)"
| "run_call b CallClearCurrentAccount w = clearCurrentAccount w"

definition onUpdate :: "backend \<Rightarrow> PersistedSession \<Rightarrow> world \<Rightarrow> world" where
  "onUpdate b session w = fold (run_call b) (onUpdate_calls session (state w)) w"

subsection \<open>Sequences of operations\<close>

datatype op =
    OpCreateAccount CreateAccountProps
  | OpLogin LoginProps
  | OpLogout
  | OpClearCurrentAccount
  | OpInitSession SessionAccount
  | OpResumeSession "SessionAccount option"
  | OpRemoveAccount SessionAccount
  | OpSelectAccount SessionAccount
  | OpUpdateCurrentAccount AccountPatch
  | OpPersistSession SessionAccount string "AtpSessionData option"
  | OpExternalUpdate PersistedSession

text \<open>
  One operation, run to completion against the backend's answers; a rejection leaves the
  world as the operation left it. \<open>OpPersistSession\<close> is a later call of the handler
  registered for an account.
\<close>

fun step :: "backend \<Rightarrow> op \<Rightarrow> world \<Rightarrow> world" where
  "step b (OpCreateAccount props) w = snd (createAccount b props w)"
| "step b (OpLogin props) w = snd (login b props w)"
| "step b OpLogout w = snd (logout w)"
| "step b OpClearCurrentAccount w = clearCurrentAccount w"
| "step b (OpInitSession account) w = snd (initSession b account w)"
| "step b (OpResumeSession account) w = snd (resumeSession b account w)"
| "step b (OpRemoveAccount account) w = removeAccount account w"
| "step b (OpSelectAccount account) w = snd (selectAccount b account w)"
| "step b (OpUpdateCurrentAccount account) w = updateCurrentAccount account w"
| "step b (OpPersistSession account event session) w = persistHandler account event session w"
| "step b (OpExternalUpdate session) w = onUpdate b session w"

fun run :: "(backend \<times> op) list \<Rightarrow> world \<Rightarrow> world" where
  "run [] w = w"
| "run ((b, x) # rest) w = run rest (step b x w)"

section \<open>JavaScript numbers\<close>

text \<open>
  The image model computes with JavaScript numbers, which are IEEE-754 binary64 values.
  A number is \<open>NaN\<close> or a sign (\<open>True\<close> for negative) with a magnitude: zero, infinity,
  or a positive real. The results of multiplication and division are rounded to the
  nearest double, ties to the even significand.
\<close>

datatype magnitude = MZero | MFinite real | MInfinity

datatype number = NaN | Number bool magnitude

definition pow2 :: "int \<Rightarrow> real" where
  "pow2 e = (if 0 \<le> e then 2 ^ nat e else 1 / 2 ^ nat (- e))"

text \<open>The nearest integer, the even one of two that are equally near.\<close>

definition roundEven :: "real \<Rightarrow> int" where
  "roundEven y =
     (let f = \<lfloor>y\<rfloor>
      in if y - of_int f < 1 / 2 then f
         else if 1 / 2 < y - of_int f then f + 1
         else if even f then f else f + 1)"

text \<open>
  The exponent of the binade of a positive real \<open>x\<close>: the \<open>e\<close> with
  \<open>2^e \<le> x < 2^(e+1)\<close>, searched upwards from \<open>-1022\<close>, the exponent of the
  subnormal numbers, to \<open>1024\<close>, where every number rounds to infinity. Doubles of one
  binade are \<open>2^(e-52)\<close> apart.
\<close>

fun binadeFrom :: "nat \<Rightarrow> int \<Rightarrow> real \<Rightarrow> int" where
  "binadeFrom 0 e x = e"
| "binadeFrom (Suc n) e x = (if x < pow2 (e + 1) then e else binadeFrom n (e + 1) x)"

definition binade :: "real \<Rightarrow> int" where
  "binade x = binadeFrom 2046 (- 1022) x"

definition ulp :: "real \<Rightarrow> real" where
  "ulp x = pow2 (binade x - 52)"

definition rounded :: "real \<Rightarrow> real" where
  "rounded x = of_int (roundEven (x / ulp x)) * ulp x"

text \<open>
  The magnitude a positive real is rounded to: zero on underflow, infinity from
  \<open>2^1024\<close> on.
\<close>

definition roundDouble :: "real \<Rightarrow> magnitude" where
  "roundDouble x =
     (let y = rounded x
      in if y = 0 then MZero else if pow2 1024 \<le> y then MInfinity else MFinite y)"

text \<open>
  The operators \<open>*\<close> and \<open>/\<close>: \<open>NaN\<close> is contagious, zero times infinity, zero by zero
  and infinity by infinity are \<open>NaN\<close>, a finite number by zero is an infinity, and the
  sign of every other result is the exclusive or of the signs.
\<close>

fun jsmul :: "number \<Rightarrow> number \<Rightarrow> number" where
  "jsmul NaN b = NaN"
| "jsmul a NaN = NaN"
| "jsmul (Number s MZero) (Number t MInfinity) = NaN"
| "jsmul (Number s MInfinity) (Number t MZero) = NaN"
| "jsmul (Number s MZero) (Number t b) = Number (s \<noteq> t) MZero"
| "jsmul (Number s a) (Number t MZero) = Number (s \<noteq> t) MZero"
| "jsmul (Number s MInfinity) (Number t b) = Number (s \<noteq> t) MInfinity"
| "jsmul (Number s a) (Number t MInfinity) = Number (s \<noteq> t) MInfinity"
| "jsmul (Number s (MFinite x)) (Number t (MFinite y)) = Number (s \<noteq> t) (roundDouble (x * y))"

fun jsdiv :: "number \<Rightarrow> number \<Rightarrow> number" where
  "jsdiv NaN b = NaN"
| "jsdiv a NaN = NaN"
| "jsdiv (Number s MZero) (Number t MZero) = NaN"
| "jsdiv (Number s MInfinity) (Number t MInfinity) = NaN"
| "jsdiv (Number s MZero) (Number t b) = Number (s \<noteq> t) MZero"
| "jsdiv (Number s a) (Number t MInfinity) = Number (s \<noteq> t) MZero"
| "jsdiv (Number s MInfinity) (Number t b) = Number (s \<noteq> t) MInfinity"
| "jsdiv (Number s a) (Number t MZero) = Number (s \<noteq> t) MInfinity"
| "jsdiv (Number s (MFinite x)) (Number t (MFinite y)) = Number (s \<noteq> t) (roundDouble (x / y))"

text \<open>
  The operators \<open><\<close> and \<open>===\<close>: every comparison with \<open>NaN\<close> is false, and the two
  zeros are equal.
\<close>

fun signed :: "bool \<Rightarrow> magnitude \<Rightarrow> real" where
  "signed s MZero = 0"
| "signed s (MFinite x) = (if s then - x else x)"
| "signed s MInfinity = 0"

fun jslt :: "number \<Rightarrow> number \<Rightarrow> bool" where
  "jslt NaN b = False"
| "jslt a NaN = False"
| "jslt (Number s MInfinity) (Number t MInfinity) = (s \<and> \<not> t)"
| "jslt (Number s MInfinity) (Number t b) = s"
| "jslt (Number s a) (Number t MInfinity) = (\<not> t)"
| "jslt (Number s a) (Number t b) = (signed s a < signed t b)"

fun jseq :: "number \<Rightarrow> number \<Rightarrow> bool" where
  "jseq NaN b = False"
| "jseq a NaN = False"
| "jseq (Number s MInfinity) (Number t MInfinity) = (s = t)"
| "jseq (Number s MInfinity) (Number t b) = False"
| "jseq (Number s a) (Number t MInfinity) = False"
| "jseq (Number s a) (Number t b) = (signed s a = signed t b)"

text \<open>The positive number of a positive real, as for the literals \<open>4\<close>, \<open>3\<close> and \<open>1\<close>.\<close>

definition posnum :: "real \<Rightarrow> number" where
  "posnum x = Number False (MFinite x)"

text \<open>
  A finite magnitude of the datatype stands for a double only when it is positive and
  rounding leaves it as it is. Every JavaScript number is such a value.
\<close>

definition isDouble :: "number \<Rightarrow> bool" where
  "isDouble a =
     (case a of Number s (MFinite x) \<Rightarrow> 0 < x \<and> roundDouble x = MFinite x | _ \<Rightarrow> True)"

section \<open>Image model: upload dimensions\<close>

text \<open>
  \<open>POST_IMG_MAX\<close> is a constant of \<open>lib/constants\<close> and is a parameter here.
\<close>

datatype aspectRatio = Ratio_4_3 | Ratio_1_1 | Ratio_3_4 | Ratio_None

record Dimensions =
  width :: number
  height :: number

record ImageModel =
  image_width :: number
  image_height :: number

text \<open>An omitted \<open>as\<close> argument takes its default, \<open>'None'\<close>.\<close>

definition as_or_default :: "aspectRatio option \<Rightarrow> aspectRatio" where
  "as_or_default as = (case as of None \<Rightarrow> Ratio_None | Some a \<Rightarrow> a)"

definition ratioMultipliers :: "ImageModel \<Rightarrow> aspectRatio \<Rightarrow> number" where
  "ratioMultipliers img as =
     (case as of
        Ratio_4_3 \<Rightarrow> jsdiv (posnum 4) (posnum 3)
      | Ratio_1_1 \<Rightarrow> posnum 1
      | Ratio_3_4 \<Rightarrow> jsdiv (posnum 3) (posnum 4)
      | Ratio_None \<Rightarrow> jsdiv (image_width img) (image_height img))"

definition getResizedDimensions :: "ImageModel \<Rightarrow> aspectRatio option \<Rightarrow> number \<Rightarrow> Dimensions" where
  "getResizedDimensions img as maxSide =
     (let ratioMultiplier = ratioMultipliers img (as_or_default as)
      in if jseq ratioMultiplier (posnum 1) then \<lparr>width = maxSide, height = maxSide\<rparr>
         else if jslt ratioMultiplier (posnum 1)
           then \<lparr>width = jsmul maxSide ratioMultiplier, height = maxSide\<rparr>
         else \<lparr>width = maxSide, height = jsdiv maxSide ratioMultiplier\<rparr>)"

definition getUploadDimensions ::
  "Dimensions \<Rightarrow> ImageModel \<Rightarrow> Dimensions \<Rightarrow> Dimensions option \<Rightarrow> aspectRatio option
    \<Rightarrow> Dimensions" where
  "getUploadDimensions POST_IMG_MAX img dimensions maxDimensions as =
     (let maxD = (case maxDimensions of None \<Rightarrow> POST_IMG_MAX | Some m \<Rightarrow> m)
      in if jslt (width dimensions) (width maxD) \<and> jslt (height dimensions) (height maxD)
         then \<lparr>width = width dimensions, height = height dimensions\<rparr>
         else getResizedDimensions img as (width POST_IMG_MAX))"

section \<open>Predicates of the properties\<close>

text \<open>The roster holds at most one entry per \<open>did\<close>.\<close>

definition uniqueDids :: "SessionState \<Rightarrow> bool" where
  "uniqueDids s = distinct (map did (accounts s))"

text \<open>
  The account an updater activates: only an upsert that is not an expiry makes its
  account the current one. \<open>lastActivated\<close> reads the \<open>did\<close> of the most recently
  activated account off the log of updaters.
\<close>

fun activated_did :: "updater \<Rightarrow> string option" where
  "activated_did (UpsertAccount account expired) = (if expired then None else Some (did account))"
| "activated_did u = None"

definition lastActivated :: "updater list \<Rightarrow> string option" where
  "lastActivated us =
     fold (\<lambda>u acc. case activated_did u of None \<Rightarrow> acc | Some d \<Rightarrow> Some d) us None"

definition mostRecentlyActivatedAtHead :: "world \<Rightarrow> bool" where
  "mostRecentlyActivatedAtHead w =
     (case lastActivated (setStateCalls w) of
        None \<Rightarrow> True
      | Some d \<Rightarrow> (case accounts (state w) of [] \<Rightarrow> False | a # rest \<Rightarrow> did a = d))"

text \<open>
  An updater disturbs the head for the account with \<open>did\<close> \<open>d\<close> when it removes that
  account from the roster, or puts another account at the head without activating it (an
  upsert for an expired session of another \<open>did\<close>). \<open>headUndisturbed\<close> reads off the log
  of updaters whether none has done so since the most recent activation.
\<close>

fun disturbsHead :: "string \<Rightarrow> updater \<Rightarrow> bool" where
  "disturbsHead d (RemoveAccount account) = (did account = d)"
| "disturbsHead d (UpsertAccount account expired) = (expired \<and> did account \<noteq> d)"
| "disturbsHead d u = False"

fun trackStep :: "updater \<Rightarrow> string option \<times> bool \<Rightarrow> string option \<times> bool" where
  "trackStep u (activated, undisturbed) =
     (case activated_did u of
        Some d \<Rightarrow> (Some d, True)
      | None \<Rightarrow>
          (activated,
           undisturbed \<and> (case activated of None \<Rightarrow> True | Some d \<Rightarrow> \<not> disturbsHead d u)))"

definition headUndisturbed :: "updater list \<Rightarrow> bool" where
  "headUndisturbed us = snd (fold trackStep us (None, True))"

text \<open>
  The invariant of the roster and the log: one entry per \<open>did\<close>; the current account is the
  most recently activated one; that one heads the roster while the head is undisturbed.
\<close>

definition rosterInvariant :: "world \<Rightarrow> bool" where
  "rosterInvariant w =
     (uniqueDids (state w)
      \<and> (case currentAccount (state w) of
           None \<Rightarrow> True
         | Some c \<Rightarrow> lastActivated (setStateCalls w) = Some (did c))
      \<and> (headUndisturbed (setStateCalls w) \<longrightarrow> mostRecentlyActivatedAtHead w))"

text \<open>The current account, when set, has an entry with its \<open>did\<close> in the roster.\<close>

definition currentInRoster :: "SessionState \<Rightarrow> bool" where
  "currentInRoster s =
     (case currentAccount s of
        None \<Rightarrow> True
      | Some c \<Rightarrow> did c \<in> set (map did (accounts s)))"

text \<open>
  An operation removes the current account when it is \<open>removeAccount\<close> for the \<open>did\<close> of
  the account that is current when it runs.
\<close>

fun removesCurrent :: "op \<Rightarrow> SessionState \<Rightarrow> bool" where
  "removesCurrent (OpRemoveAccount account) s =
     (map_option did (currentAccount s) = Some (did account))"
| "removesCurrent x s = False"

fun neverRemovesCurrent :: "(backend \<times> op) list \<Rightarrow> world \<Rightarrow> bool" where
  "neverRemovesCurrent [] w = True"
| "neverRemovesCurrent ((b, x) # rest) w =
     (\<not> removesCurrent x (state w) \<and> neverRemovesCurrent rest (step b x w))"


text \<open>
  The events the client delivers to the handler during the resume attempts that
  \<open>initSession\<close> makes, in order: those of an attempt, and those of the next attempt when
  the attempt fails off the network and the retry budget allows one.
\<close>

fun resumeEvents ::
  "nat \<Rightarrow> (nat \<Rightarrow> ResumeAttempt) \<Rightarrow> nat \<Rightarrow> (string \<times> AtpSessionData option) list" where
  "resumeEvents retries attempts i =
     persistEvents (attempts i) @
       (case outcome (attempts i) of
          Returns session \<Rightarrow> []
        | Throws e \<Rightarrow>
            (case retries of
               Suc (Suc n) \<Rightarrow>
                 if isNetworkError e then resumeEvents (Suc n) attempts (Suc i) else []
             | _ \<Rightarrow> []))"

definition deliveredEvents ::
  "backend \<Rightarrow> SessionAccount \<Rightarrow> (string \<times> AtpSessionData option) list" where
  "deliveredEvents b account =
     resumeEvents 3 (resumeSessionCall b (service account) (resumeArgs account)) 0"


text \<open>The account \<open>initSession\<close> rebuilds from the session the client reports.\<close>

definition freshAccountOf :: "backend \<Rightarrow> SessionAccount \<Rightarrow> AtpSessionData \<Rightarrow> SessionAccount" where
  "freshAccountOf b account session =
     \<lparr>service = serviceToString b (service account),
      did = session_did session,
      handle = session_handle session,
      email = session_email session,
      emailConfirmed = Some (or_false (session_emailConfirmed session)),
      refreshJwt = Some (session_refreshJwt session),
      accessJwt = Some (session_accessJwt session)\<rparr>"

text \<open>
  The longer side of dimensions is \<open>m\<close>: one side is \<open>m\<close> and the other is at most \<open>m\<close>
  (\<open>jsle\<close> is JavaScript's \<open><=\<close>).
\<close>

definition jsle :: "number \<Rightarrow> number \<Rightarrow> bool" where
  "jsle a b = (jslt a b \<or> jseq a b)"

definition longerSideIs :: "number \<Rightarrow> Dimensions \<Rightarrow> bool" where
  "longerSideIs m d =
     (width d = m \<and> jsle (height d) m \<or> height d = m \<and> jsle (width d) m)"

text \<open>The width-to-height ratio of dimensions, as JavaScript computes it.\<close>

definition ratioOf :: "Dimensions \<Rightarrow> number" where
  "ratioOf d = jsdiv (width d) (height d)"

text \<open>
  A maximum \<open>m\<close> and a multiplier \<open>r0\<close> for which no step of the resizing leaves the
  range of the normal doubles: the multiplier, the scaled side (\<open>m * r0\<close> or \<open>m / r0\<close>)
  and the ratio of the result are rounded with a relative error of at most \<open>2^-53\<close>.
\<close>

definition normalRange :: "real \<Rightarrow> real \<Rightarrow> bool" where
  "normalRange m r0 =
     (m < pow2 1023 \<and> pow2 (- 1021) \<le> r0 \<and> r0 < pow2 1022
      \<and> pow2 (- 1022) \<le> m * r0 \<and> pow2 (- 1022) \<le> m / r0)"

text \<open>A finite magnitude is a positive real; part of \<open>isDouble\<close>.\<close>

definition positiveMagnitude :: "number \<Rightarrow> bool" where
  "positiveMagnitude a = (case a of Number s (MFinite x) \<Rightarrow> 0 < x | _ \<Rightarrow> True)"

section \<open>Example values\<close>

text \<open>Two accounts, the sessions a client reports for them, and scripted backends.\<close>

definition alice :: SessionAccount where
  "alice = \<lparr>service = ''s'', did = ''did:1'', handle = ''alice'', email = Some ''a@x'',
     emailConfirmed = Some True, refreshJwt = Some ''r1'', accessJwt = Some ''a1''\<rparr>"

definition bob :: SessionAccount where
  "bob = \<lparr>service = ''s'', did = ''did:2'', handle = ''bob'', email = Some ''b@x'',
     emailConfirmed = Some False, refreshJwt = Some ''r2'', accessJwt = Some ''a2''\<rparr>"

definition aliceSession :: AtpSessionData where
  "aliceSession = \<lparr>session_refreshJwt = ''r1'', session_accessJwt = ''a1'',
     session_handle = ''alice'', session_did = ''did:1'', session_email = Some ''a@x'',
     session_emailConfirmed = Some True\<rparr>"

definition bobSession :: AtpSessionData where
  "bobSession = \<lparr>session_refreshJwt = ''r2n'', session_accessJwt = ''a2n'',
     session_handle = ''bobby'', session_did = ''did:2'', session_email = Some ''b@x'',
     session_emailConfirmed = None\<rparr>"

text \<open>
  A backend that answers every create and login call with \<open>callAnswer\<close> and every
  resume attempt with \<open>attempt\<close>, and prints a service as it is.
\<close>

definition scriptedBackend :: "call_outcome \<Rightarrow> ResumeAttempt \<Rightarrow> backend" where
  "scriptedBackend callAnswer attempt =
     \<lparr>serviceToString = (\<lambda>s. s),
      createAccountCall = (\<lambda>props. callAnswer),
      loginCall = (\<lambda>props. callAnswer),
      resumeSessionCall = (\<lambda>s args i. attempt)\<rparr>"

definition aliceLogin :: LoginProps where
  "aliceLogin = \<lparr>login_service = ''s'', login_identifier = ''alice'', login_password = ''p''\<rparr>"


text \<open>
  Backends: one whose resume reports the session of \<open>bob\<close> after a \<open>create\<close> event, one
  whose resume fails after telling the handler so, one whose resume returns with no
  session after an \<open>expired\<close> event, one that answers for \<open>alice\<close> without events, and
  one that is off the network.
\<close>

definition bobBackend :: backend where
  "bobBackend = scriptedBackend (Returns (Some bobSession))
     \<lparr>persistEvents = [(''create'', Some bobSession)], outcome = Returns (Some bobSession)\<rparr>"

definition droppingBackend :: backend where
  "droppingBackend = scriptedBackend (Returns None)
     \<lparr>persistEvents = [(''create-failed'', None)], outcome = Throws (RequestError ''invalid'')\<rparr>"


definition aliceBackend :: backend where
  "aliceBackend = scriptedBackend (Returns (Some aliceSession))
     \<lparr>persistEvents = [], outcome = Returns (Some aliceSession)\<rparr>"

definition offlineBackend :: backend where
  "offlineBackend = scriptedBackend (Throws NetworkError)
     \<lparr>persistEvents = [], outcome = Throws NetworkError\<rparr>"

text \<open>
  The world after the provider started with \<open>bob\<close> persisted, resumed no account, and
  \<open>alice\<close> logged in.
\<close>

definition aliceActive :: world where
  "aliceActive =
     run [(aliceBackend, OpResumeSession None), (aliceBackend, OpLogin aliceLogin)]
       (initialWorld [bob])"

text \<open>The account rebuilt from the session of \<open>bob\<close>, and a backend whose calls return with no
  session and deliver no event.\<close>

definition bobFresh :: SessionAccount where
  "bobFresh = \<lparr>service = ''s'', did = ''did:2'', handle = ''bobby'', email = Some ''b@x'',
     emailConfirmed = Some False, refreshJwt = Some ''r2n'', accessJwt = Some ''a2n''\<rparr>"


text \<open>
  Images and maxima for the upload dimensions. An image is given by its two sides, and
  its own dimensions are what \<open>manipulate\<close> passes when nothing is cropped.
\<close>

definition max2000 :: Dimensions where
  "max2000 = \<lparr>width = posnum 2000, height = posnum 2000\<rparr>"

definition maxHalf :: Dimensions where
  "maxHalf = \<lparr>width = posnum (1 / 2), height = posnum (1 / 2)\<rparr>"

definition maxHuge :: Dimensions where
  "maxHuge = \<lparr>width = posnum 9007199254740990, height = posnum 9007199254740990\<rparr>"

definition maxLarge :: Dimensions where
  "maxLarge = \<lparr>width = posnum 7000000000000003, height = posnum 7000000000000003\<rparr>"

definition imageOf :: "number \<Rightarrow> number \<Rightarrow> ImageModel" where
  "imageOf w h = \<lparr>image_width = w, image_height = h\<rparr>"

definition ownDimensions :: "ImageModel \<Rightarrow> Dimensions" where
  "ownDimensions img = \<lparr>width = image_width img, height = image_height img\<rparr>"

definition wideImage :: ImageModel where
  "wideImage = imageOf (posnum 3000) (posnum 1000)"

definition smallImage :: ImageModel where
  "smallImage = imageOf (posnum 800) (posnum 600)"

definition photo :: ImageModel where
  "photo = imageOf (posnum 2600) (posnum 1800)"

definition flatImage :: ImageModel where
  "flatImage = imageOf (posnum 3000) (Number False MZero)"

definition emptyImage :: ImageModel where
  "emptyImage = imageOf (Number False MZero) (Number False MZero)"

definition tinyImage :: ImageModel where
  "tinyImage = imageOf (posnum (3 * pow2 (- 1074))) (posnum 1)"

section \<open>Auxiliary facts\<close>

lemmas world_defs = setState_def setStateAndPersist_def queryClient_clear_def
  emitSessionLoaded_def emitSessionDropped_def logger_error_def upsertAccount_def

lemmas handler_defs = persistHandler_def createPersistSessionHandler_def
  persistSession_expired_def persistSession_refreshedAccount_def
  or_string_def or_string_opt_def or_bool_opt_def or_false_def

declare networkRetry.simps [simp del]

subsection \<open>What the resume attempts preserve\<close>

text \<open>
  During \<open>initSession\<close> the state changes only through the handler: a property of the
  world that upserts and the session-dropped event keep is kept by the resume attempts.
\<close>

lemma persistHandler_closed:
  assumes up: "\<And>a e v. P v \<Longrightarrow> P (upsertAccount a e v)"
    and dr: "\<And>v. P v \<Longrightarrow> P (emitSessionDropped v)"
    and "P w"
  shows "P (persistHandler account event session w)"
  using assms by (simp add: persistHandler_def createPersistSessionHandler_def Let_def)

lemma events_closed:
  assumes up: "\<And>a e v. P v \<Longrightarrow> P (upsertAccount a e v)"
    and dr: "\<And>v. P v \<Longrightarrow> P (emitSessionDropped v)"
  shows "P w \<Longrightarrow> P (fold (\<lambda>(event, session). persistHandler account event session) evs w)"
proof (induction evs arbitrary: w)
  case Nil
  then show ?case by simp
next
  case (Cons ev evs)
  obtain event session where ev: "ev = (event, session)" by (cases ev)
  have "P (persistHandler account event session w)"
    using up dr Cons.prems by (rule persistHandler_closed)
  then show ?case using Cons.IH ev by simp
qed

lemma agent_resumeSession_closed:
  assumes up: "\<And>a e v. P v \<Longrightarrow> P (upsertAccount a e v)"
    and dr: "\<And>v. P v \<Longrightarrow> P (emitSessionDropped v)"
    and "P w"
  shows "P (snd (agent_resumeSession b account args i w))"
  using events_closed [of P, OF up dr assms(3)]
  by (simp add: agent_resumeSession_def Let_def split: call_outcome.splits)

lemma networkRetry_unfold:
  assumes "fn i w = (r, w')"
  shows "networkRetry n fn i w =
     (case r of
        Inr v \<Rightarrow> (Inr v, w')
      | Inl e \<Rightarrow>
          (case n of
             Suc (Suc k) \<Rightarrow>
               if isNetworkError e then networkRetry (Suc k) fn (Suc i) w' else (Inl e, w')
           | _ \<Rightarrow> (Inl e, w')))"
  using assms by (subst networkRetry.simps) (simp split: sum.splits)

lemma networkRetry_closed:
  assumes fn: "\<And>i v. P v \<Longrightarrow> P (snd (fn i v))"
  shows "P w \<Longrightarrow> P (snd (networkRetry n fn i w))"
proof (induction n arbitrary: i w rule: less_induct)
  case (less n)
  obtain r w' where res: "fn i w = (r, w')" by (cases "fn i w")
  have pw': "P w'" using less.prems fn[of w i] res by simp
  note unf = networkRetry_unfold [where fn=fn and i=i and w=w and n=n, OF res]
  show ?case
  proof (cases r)
    case (Inr v)
    then show ?thesis using unf pw' by simp
  next
    case (Inl e)
    show ?thesis
    proof (cases n)
      case 0
      then show ?thesis using unf pw' Inl by simp
    next
      case (Suc m)
      show ?thesis
      proof (cases m)
        case 0
        then show ?thesis using unf pw' Inl Suc by simp
      next
        case (Suc k)
        have "P (snd (networkRetry (Suc k) fn (Suc i) w'))"
          using less.IH[of "Suc k" w' "Suc i"] pw' Suc \<open>n = Suc m\<close> by simp
        then show ?thesis using unf pw' Inl Suc \<open>n = Suc m\<close> by simp
      qed
    qed
  qed
qed

lemma resume_retry_closed:
  assumes up: "\<And>a e v. P v \<Longrightarrow> P (upsertAccount a e v)"
    and dr: "\<And>v. P v \<Longrightarrow> P (emitSessionDropped v)"
    and "P w"
  shows "P (snd (networkRetry n (agent_resumeSession b account args) i w))"
proof (rule networkRetry_closed)
  show "P w" by fact
next
  fix j v assume "P v"
  with up dr show "P (snd (agent_resumeSession b account args j v))"
    by (rule agent_resumeSession_closed)
qed





subsection \<open>The three ways \<open>initSession\<close> ends\<close>

lemma initSession_failure:
  assumes "networkRetry 3 (agent_resumeSession b account (resumeArgs account)) 0 w = (Inl e, w1)"
  shows "initSession b account w = (Inl (ClientFailure e), w1)"
  using assms by (simp add: initSession_def)

lemma initSession_no_session:
  assumes "networkRetry 3 (agent_resumeSession b account (resumeArgs account)) 0 w = (Inr None, w1)"
  shows "initSession b account w =
    (Inl (EstablishmentError ''session: initSession failed to establish a session''), w1)"
  using assms by (simp add: initSession_def)

lemma initSession_success:
  assumes "networkRetry 3 (agent_resumeSession b account (resumeArgs account)) 0 w
            = (Inr (Some session), w1)"
  shows "initSession b account w =
    (Inr (),
     emitSessionLoaded (freshAccountOf b account session)
       (upsertAccount (freshAccountOf b account session) False
         (queryClient_clear
           (w1\<lparr>globalAgent := BskyAgent (service account) (Some session) account\<rparr>))))"
  using assms by (simp add: initSession_def freshAccountOf_def Let_def)

lemma initSession_closed:
  assumes up: "\<And>a e v. P v \<Longrightarrow> P (upsertAccount a e v)"
    and dr: "\<And>v. P v \<Longrightarrow> P (emitSessionDropped v)"
    and ag: "\<And>g v. P v \<Longrightarrow> P (v\<lparr>globalAgent := g\<rparr>)"
    and qc: "\<And>v. P v \<Longrightarrow> P (queryClient_clear v)"
    and ld: "\<And>a v. P v \<Longrightarrow> P (emitSessionLoaded a v)"
    and "P w"
  shows "P (snd (initSession b account w))"
proof -
  let ?res = "networkRetry 3 (agent_resumeSession b account (resumeArgs account)) 0 w"
  obtain r w1 where res: "?res = (r, w1)" by (cases ?res)
  have "P (snd ?res)" using up dr \<open>P w\<close> by (rule resume_retry_closed)
  then have w1: "P w1" using res by simp
  show ?thesis
  proof (cases r)
    case (Inl e)
    then show ?thesis using initSession_failure[of b account w e w1] res w1 by simp
  next
    case (Inr s)
    show ?thesis
    proof (cases s)
      case None
      then show ?thesis using initSession_no_session[of b account w w1] res w1 Inr by simp
    next
      case (Some session)
      then show ?thesis
        using initSession_success[of b account w session w1] res Inr
          ld[OF up[OF qc[OF ag[OF w1]]]] by simp
    qed
  qed
qed



lemma initSession_log_frame:
  "count_list (setStateCalls (snd (initSession b a w))) (SetIsInitialLoad x)
     = count_list (setStateCalls w) (SetIsInitialLoad x)
   \<and> errorLog (snd (initSession b a w)) = errorLog w"
  by (rule initSession_closed
      [where P = "\<lambda>v. count_list (setStateCalls v) (SetIsInitialLoad x)
                        = count_list (setStateCalls w) (SetIsInitialLoad x)
                      \<and> errorLog v = errorLog w"])
    (simp_all add: world_defs)

subsection \<open>The example backends at work\<close>

lemma offline_initSession:
  "initSession offlineBackend bob w = (Inl (ClientFailure NetworkError), w)"
  by (simp add: initSession_def networkRetry.simps agent_resumeSession_def
      offlineBackend_def scriptedBackend_def isNetworkError_def numeral_3_eq_3)

lemma dropping_initSession:
  "initSession droppingBackend bob w =
     (Inl (ClientFailure (RequestError ''invalid'')), persistHandler bob ''create-failed'' None w)"
  by (simp add: initSession_def networkRetry.simps agent_resumeSession_def
      droppingBackend_def scriptedBackend_def isNetworkError_def numeral_3_eq_3)

subsection \<open>Invariants of the roster under the updaters\<close>

lemma did_notin_filter: "d \<notin> set (map did (filter (\<lambda>a. did a \<noteq> d) xs))"
  by (induction xs) auto

lemma uniqueDids_updater:
  "uniqueDids s \<Longrightarrow> uniqueDids (apply_updater u s)"
proof (cases u)
  case (UpsertAccount a e)
  assume "uniqueDids s"
  then show ?thesis
    using UpsertAccount did_notin_filter[of "did a" "accounts s"]
    by (simp add: uniqueDids_def distinct_map_filter)
next
  case (UpdateCurrentAccount p)
  assume "uniqueDids s"
  then show ?thesis
    using UpdateCurrentAccount did_notin_filter[of _ "accounts s"]
    by (simp add: uniqueDids_def distinct_map_filter Let_def split: option.splits)
next
  case StripTokens
  assume "uniqueDids s"
  then show ?thesis using StripTokens by (simp add: uniqueDids_def comp_def)
qed (simp_all add: uniqueDids_def distinct_map_filter)

lemma currentInRoster_updater:
  assumes "currentInRoster s"
    and "case u of RemoveAccount a \<Rightarrow> map_option did (currentAccount s) \<noteq> Some (did a)
         | _ \<Rightarrow> True"
  shows "currentInRoster (apply_updater u s)"
proof (cases u)
  case (RemoveAccount a)
  then show ?thesis using assms
    by (auto simp: currentInRoster_def split: option.splits)
next
  case StripTokens
  then show ?thesis using assms(1)
    by (simp add: currentInRoster_def image_image split: option.splits)
qed (use assms(1) in \<open>simp_all add: currentInRoster_def Let_def split: option.splits\<close>)

lemmas op_defs = clearCurrentAccount_def logout_def removeAccount_def updateCurrentAccount_def

lemma state_proj:
  "state (setState u v) = apply_updater u (state v)"
  "state (setStateAndPersist u v) = apply_updater u (state v)"
  "state (upsertAccount a e v) = apply_updater (UpsertAccount a e) (state v)"
  "state (emitSessionDropped v) = state v"
  "state (v\<lparr>globalAgent := g\<rparr>) = state v"
  "state (queryClient_clear v) = state v"
  "state (emitSessionLoaded a v) = state v"
  "state (logger_error m v) = state v"
  "state (clearCurrentAccount v) = apply_updater ClearCurrentAccount (state v)"
  "state (snd (logout v)) = apply_updater StripTokens (apply_updater ClearCurrentAccount (state v))"
  "state (removeAccount a v) = apply_updater (RemoveAccount a) (state v)"
  "state (updateCurrentAccount p v) = apply_updater (UpdateCurrentAccount p) (state v)"
  by (simp_all add: world_defs op_defs)

lemma createAccount_closed:
  assumes up: "\<And>a e v. P v \<Longrightarrow> P (upsertAccount a e v)"
    and ag: "\<And>g v. P v \<Longrightarrow> P (v\<lparr>globalAgent := g\<rparr>)"
    and qc: "\<And>v. P v \<Longrightarrow> P (queryClient_clear v)"
    and ld: "\<And>a v. P v \<Longrightarrow> P (emitSessionLoaded a v)"
    and "P w"
  shows "P (snd (createAccount b props w))"
proof (cases "createAccountCall b props")
  case (Throws e)
  then show ?thesis using \<open>P w\<close> by (simp add: createAccount_def)
next
  case (Returns s)
  show ?thesis
  proof (cases s)
    case None
    then show ?thesis using Returns \<open>P w\<close> by (simp add: createAccount_def)
  next
    case (Some session)
    then show ?thesis using Returns ld[OF up[OF qc[OF ag[OF \<open>P w\<close>]]]]
      by (simp add: createAccount_def Let_def)
  qed
qed

lemma login_closed:
  assumes up: "\<And>a e v. P v \<Longrightarrow> P (upsertAccount a e v)"
    and ag: "\<And>g v. P v \<Longrightarrow> P (v\<lparr>globalAgent := g\<rparr>)"
    and qc: "\<And>v. P v \<Longrightarrow> P (queryClient_clear v)"
    and ld: "\<And>a v. P v \<Longrightarrow> P (emitSessionLoaded a v)"
    and "P w"
  shows "P (snd (login b props w))"
proof (cases "loginCall b props")
  case (Throws e)
  then show ?thesis using \<open>P w\<close> by (simp add: login_def)
next
  case (Returns s)
  show ?thesis
  proof (cases s)
    case None
    then show ?thesis using Returns \<open>P w\<close> by (simp add: login_def)
  next
    case (Some session)
    then show ?thesis using Returns ld[OF up[OF qc[OF ag[OF \<open>P w\<close>]]]]
      by (simp add: login_def Let_def)
  qed
qed

lemma resumeSession_closed:
  assumes up: "\<And>a e v. P v \<Longrightarrow> P (upsertAccount a e v)"
    and dr: "\<And>v. P v \<Longrightarrow> P (emitSessionDropped v)"
    and ag: "\<And>g v. P v \<Longrightarrow> P (v\<lparr>globalAgent := g\<rparr>)"
    and qc: "\<And>v. P v \<Longrightarrow> P (queryClient_clear v)"
    and ld: "\<And>a v. P v \<Longrightarrow> P (emitSessionLoaded a v)"
    and lg: "\<And>m v. P v \<Longrightarrow> P (logger_error m v)"
    and il: "\<And>v. P v \<Longrightarrow> P (setState (SetIsInitialLoad False) v)"
    and "P w"
  shows "P (snd (resumeSession b account w))"
proof (cases account)
  case None
  then show ?thesis using il[OF \<open>P w\<close>] by (simp add: resumeSession_def)
next
  case (Some a)
  obtain r w1 where res: "initSession b a w = (r, w1)" by (cases "initSession b a w")
  have "P (snd (initSession b a w))" using up dr ag qc ld \<open>P w\<close> by (rule initSession_closed)
  then have w1: "P w1" using res by simp
  show ?thesis using Some res il[OF w1] il[OF lg[OF w1]]
    by (cases r) (simp_all add: resumeSession_def)
qed

lemma selectAccount_closed:
  assumes up: "\<And>a e v. P v \<Longrightarrow> P (upsertAccount a e v)"
    and dr: "\<And>v. P v \<Longrightarrow> P (emitSessionDropped v)"
    and ag: "\<And>g v. P v \<Longrightarrow> P (v\<lparr>globalAgent := g\<rparr>)"
    and qc: "\<And>v. P v \<Longrightarrow> P (queryClient_clear v)"
    and ld: "\<And>a v. P v \<Longrightarrow> P (emitSessionLoaded a v)"
    and sw: "\<And>x v. P v \<Longrightarrow> P (setState (SetIsSwitchingAccounts x) v)"
    and "P w"
  shows "P (snd (selectAccount b account w))"
proof -
  let ?w0 = "setState (SetIsSwitchingAccounts True) w"
  obtain r w1 where res: "initSession b account ?w0 = (r, w1)"
    by (cases "initSession b account ?w0")
  have "P (snd (initSession b account ?w0))"
    using up dr ag qc ld sw[OF \<open>P w\<close>] by (rule initSession_closed)
  then have "P w1" using res by simp
  then show ?thesis using res sw[of w1 False]
    by (cases r) (simp_all add: selectAccount_def Let_def)
qed

lemma onUpdate_closed:
  assumes up: "\<And>a e v. P v \<Longrightarrow> P (upsertAccount a e v)"
    and dr: "\<And>v. P v \<Longrightarrow> P (emitSessionDropped v)"
    and ag: "\<And>g v. P v \<Longrightarrow> P (v\<lparr>globalAgent := g\<rparr>)"
    and qc: "\<And>v. P v \<Longrightarrow> P (queryClient_clear v)"
    and ld: "\<And>a v. P v \<Longrightarrow> P (emitSessionLoaded a v)"
    and cc: "\<And>v. P v \<Longrightarrow> P (clearCurrentAccount v)"
    and "P w"
  shows "P (onUpdate b session w)"
proof -
  have init: "P (snd (initSession b a w))" for a
    using up dr ag qc ld \<open>P w\<close> by (rule initSession_closed)
  show ?thesis using init cc[OF \<open>P w\<close>] \<open>P w\<close>
    by (simp add: onUpdate_def onUpdate_calls_def split: option.splits)
qed

text \<open>
  One operation keeps a property of the world that each of its primitive effects keeps;
  \<open>removeAccount\<close> is left to the caller of the lemma.
\<close>

lemma step_closed:
  assumes up: "\<And>a e v. P v \<Longrightarrow> P (upsertAccount a e v)"
    and dr: "\<And>v. P v \<Longrightarrow> P (emitSessionDropped v)"
    and ag: "\<And>g v. P v \<Longrightarrow> P (v\<lparr>globalAgent := g\<rparr>)"
    and qc: "\<And>v. P v \<Longrightarrow> P (queryClient_clear v)"
    and ld: "\<And>a v. P v \<Longrightarrow> P (emitSessionLoaded a v)"
    and lg: "\<And>m v. P v \<Longrightarrow> P (logger_error m v)"
    and il: "\<And>v. P v \<Longrightarrow> P (setState (SetIsInitialLoad False) v)"
    and sw: "\<And>x v. P v \<Longrightarrow> P (setState (SetIsSwitchingAccounts x) v)"
    and cc: "\<And>v. P v \<Longrightarrow> P (clearCurrentAccount v)"
    and lo: "\<And>v. P v \<Longrightarrow> P (snd (logout v))"
    and uc: "\<And>p v. P v \<Longrightarrow> P (updateCurrentAccount p v)"
    and rm: "\<And>a. x = OpRemoveAccount a \<Longrightarrow> P (removeAccount a w)"
    and "P w"
  shows "P (step b x w)"
proof (cases x)
  case (OpCreateAccount props)
  then show ?thesis using createAccount_closed[of P, OF up ag qc ld \<open>P w\<close>] by simp
next
  case (OpLogin props)
  then show ?thesis using login_closed[of P, OF up ag qc ld \<open>P w\<close>] by simp
next
  case OpLogout
  then show ?thesis using lo[OF \<open>P w\<close>] by simp
next
  case OpClearCurrentAccount
  then show ?thesis using cc[OF \<open>P w\<close>] by simp
next
  case (OpInitSession a)
  then show ?thesis using initSession_closed[of P, OF up dr ag qc ld \<open>P w\<close>] by simp
next
  case (OpResumeSession a)
  then show ?thesis using resumeSession_closed[of P, OF up dr ag qc ld lg il \<open>P w\<close>] by simp
next
  case (OpRemoveAccount a)
  then show ?thesis using rm by simp
next
  case (OpSelectAccount a)
  then show ?thesis using selectAccount_closed[of P, OF up dr ag qc ld sw \<open>P w\<close>] by simp
next
  case (OpUpdateCurrentAccount p)
  then show ?thesis using uc[OF \<open>P w\<close>] by simp
next
  case (OpPersistSession a event session)
  then show ?thesis using persistHandler_closed[of P, OF up dr \<open>P w\<close>] by simp
next
  case (OpExternalUpdate session)
  then show ?thesis using onUpdate_closed[of P, OF up dr ag qc ld cc \<open>P w\<close>] by simp
qed

lemma step_currentInRoster:
  assumes "currentInRoster (state w)" and "\<not> removesCurrent x (state w)"
  shows "currentInRoster (state (step b x w))"
  by (rule step_closed [where P = "\<lambda>v. currentInRoster (state v)"])
    (use assms in \<open>simp_all add: state_proj currentInRoster_updater del: apply_updater.simps\<close>)

lemma run_currentInRoster:
  assumes "currentInRoster (state w)" and "neverRemovesCurrent tr w"
  shows "currentInRoster (state (run tr w))"
  using assms
proof (induction tr arbitrary: w)
  case Nil
  then show ?case by simp
next
  case (Cons bx tr)
  obtain b x where bx: "bx = (b, x)" by (cases bx)
  have "currentInRoster (state (step b x w))"
    using Cons.prems bx by (simp add: step_currentInRoster)
  then show ?case using Cons.IH Cons.prems(2) bx by simp
qed

subsection \<open>The roster invariant along the log\<close>

lemma lastActivated_snoc:
  "lastActivated (us @ [u]) =
     (case activated_did u of None \<Rightarrow> lastActivated us | Some d \<Rightarrow> Some d)"
  by (simp add: lastActivated_def split: option.splits)

lemma track_fst: "fst (fold trackStep us (None, True)) = lastActivated us"
proof (induction us rule: rev_induct)
  case Nil
  then show ?case by (simp add: lastActivated_def)
next
  case (snoc u us)
  obtain a ok where p: "fold trackStep us (None, True) = (a, ok)"
    by (cases "fold trackStep us (None, True)")
  with snoc have "a = lastActivated us" by simp
  with p show ?case by (simp add: lastActivated_snoc split: option.splits)
qed

lemma headUndisturbed_snoc:
  "headUndisturbed (us @ [u]) =
     (case activated_did u of
        Some d \<Rightarrow> True
      | None \<Rightarrow> headUndisturbed us
          \<and> (case lastActivated us of None \<Rightarrow> True | Some d \<Rightarrow> \<not> disturbsHead d u))"
proof -
  obtain a ok where p: "fold trackStep us (None, True) = (a, ok)"
    by (cases "fold trackStep us (None, True)")
  have "a = lastActivated us" using track_fst[of us] p by simp
  with p show ?thesis by (simp add: headUndisturbed_def split: option.splits)
qed

lemma rosterInvariant_setState:
  assumes "rosterInvariant w"
  shows "rosterInvariant (setState u w)"
proof -
  have uq: "uniqueDids (apply_updater u (state w))"
    using assms by (simp add: rosterInvariant_def uniqueDids_updater)
  show ?thesis
  proof (cases u)
    case (UpsertAccount a e)
    then show ?thesis using assms uq
      by (auto simp: rosterInvariant_def setState_def lastActivated_snoc headUndisturbed_snoc
          mostRecentlyActivatedAtHead_def split: option.splits list.splits)
  next
    case ClearCurrentAccount
    then show ?thesis using assms uq
      by (auto simp: rosterInvariant_def setState_def lastActivated_snoc headUndisturbed_snoc
          mostRecentlyActivatedAtHead_def split: option.splits list.splits)
  next
    case StripTokens
    then show ?thesis using assms uq
      by (auto simp: rosterInvariant_def setState_def lastActivated_snoc headUndisturbed_snoc
          mostRecentlyActivatedAtHead_def split: option.splits list.splits)
  next
    case (RemoveAccount a)
    then show ?thesis using assms uq
      by (auto simp: rosterInvariant_def setState_def lastActivated_snoc headUndisturbed_snoc
          mostRecentlyActivatedAtHead_def split: option.splits list.splits)
  next
    case (UpdateCurrentAccount p)
    then show ?thesis using assms uq
      by (auto simp: rosterInvariant_def setState_def lastActivated_snoc headUndisturbed_snoc
          mostRecentlyActivatedAtHead_def Let_def split: option.splits list.splits)
  next
    case (SetIsInitialLoad x)
    then show ?thesis using assms uq
      by (auto simp: rosterInvariant_def setState_def lastActivated_snoc headUndisturbed_snoc
          mostRecentlyActivatedAtHead_def split: option.splits list.splits)
  next
    case (SetIsSwitchingAccounts x)
    then show ?thesis using assms uq
      by (auto simp: rosterInvariant_def setState_def lastActivated_snoc headUndisturbed_snoc
          mostRecentlyActivatedAtHead_def split: option.splits list.splits)
  qed
qed

lemma rosterInvariant_cong:
  "state v = state w \<Longrightarrow> setStateCalls v = setStateCalls w
     \<Longrightarrow> rosterInvariant v = rosterInvariant w"
  by (simp add: rosterInvariant_def mostRecentlyActivatedAtHead_def
      cong: option.case_cong list.case_cong)

lemma rosterInvariant_setStateAndPersist:
  assumes "rosterInvariant w"
  shows "rosterInvariant (setStateAndPersist u w)"
proof -
  have "rosterInvariant (w\<lparr>isDirty := True\<rparr>)"
    using assms rosterInvariant_cong[of "w\<lparr>isDirty := True\<rparr>" w] by simp
  then show ?thesis unfolding setStateAndPersist_def by (rule rosterInvariant_setState)
qed

lemma rosterInvariant_frame:
  assumes "rosterInvariant w"
  shows "rosterInvariant (emitSessionDropped w)"
    and "rosterInvariant (w\<lparr>globalAgent := g\<rparr>)"
    and "rosterInvariant (queryClient_clear w)"
    and "rosterInvariant (emitSessionLoaded a w)"
    and "rosterInvariant (logger_error m w)"
  using assms
  by (simp_all add: emitSessionDropped_def queryClient_clear_def emitSessionLoaded_def
      logger_error_def
      rosterInvariant_cong[of "w\<lparr>emitted := emitted w @ [SessionDropped]\<rparr>" w]
      rosterInvariant_cong[of "w\<lparr>globalAgent := g\<rparr>" w]
      rosterInvariant_cong[of "w\<lparr>queryClears := Suc (queryClears w)\<rparr>" w]
      rosterInvariant_cong[of "w\<lparr>emitted := emitted w @ [SessionLoaded a]\<rparr>" w]
      rosterInvariant_cong[of "w\<lparr>errorLog := errorLog w @ [m]\<rparr>" w])

lemma step_rosterInvariant:
  assumes "rosterInvariant w"
  shows "rosterInvariant (step b x w)"
proof (rule step_closed [where P = rosterInvariant])
  show "rosterInvariant w" by fact
next
  fix a e v assume "rosterInvariant v"
  then show "rosterInvariant (upsertAccount a e v)"
    unfolding upsertAccount_def by (rule rosterInvariant_setStateAndPersist)
next
  fix v assume v: "rosterInvariant v"
  show "rosterInvariant (emitSessionDropped v)" using v by (rule rosterInvariant_frame)
  show "rosterInvariant (queryClient_clear v)" using v by (rule rosterInvariant_frame)
  show "rosterInvariant (setState (SetIsInitialLoad False) v)"
    using v by (rule rosterInvariant_setState)
  have "rosterInvariant (queryClient_clear (v\<lparr>globalAgent := PUBLIC_BSKY_AGENT\<rparr>))"
    using v by (intro rosterInvariant_frame)
  then show cc: "rosterInvariant (clearCurrentAccount v)"
    by (simp add: clearCurrentAccount_def rosterInvariant_setStateAndPersist)
  then show "rosterInvariant (snd (logout v))"
    by (simp add: logout_def rosterInvariant_setStateAndPersist)
next
  fix g v assume "rosterInvariant v"
  then show "rosterInvariant (v\<lparr>globalAgent := g\<rparr>)" by (rule rosterInvariant_frame)
next
  fix a v assume "rosterInvariant v"
  then show "rosterInvariant (emitSessionLoaded a v)" by (rule rosterInvariant_frame)
next
  fix m v assume "rosterInvariant v"
  then show "rosterInvariant (logger_error m v)" by (rule rosterInvariant_frame)
next
  fix y v assume "rosterInvariant v"
  then show "rosterInvariant (setState (SetIsSwitchingAccounts y) v)"
    by (rule rosterInvariant_setState)
next
  fix p v assume "rosterInvariant v"
  then show "rosterInvariant (updateCurrentAccount p v)"
    unfolding updateCurrentAccount_def by (rule rosterInvariant_setStateAndPersist)
next
  fix a assume "x = OpRemoveAccount a"
  show "rosterInvariant (removeAccount a w)"
    unfolding removeAccount_def using assms by (rule rosterInvariant_setStateAndPersist)
qed

lemma run_rosterInvariant:
  "rosterInvariant w \<Longrightarrow> rosterInvariant (run tr w)"
proof (induction tr arbitrary: w)
  case Nil
  then show ?case by simp
next
  case (Cons bx tr)
  obtain b x where bx: "bx = (b, x)" by (cases bx)
  have "rosterInvariant (step b x w)" using Cons.prems by (rule step_rosterInvariant)
  then show ?case using Cons.IH bx by simp
qed

lemma initial_rosterInvariant:
  "distinct (map did ps) \<Longrightarrow> rosterInvariant (initialWorld ps)"
  by (simp add: rosterInvariant_def initialWorld_def initialState_def uniqueDids_def
      headUndisturbed_def mostRecentlyActivatedAtHead_def lastActivated_def)

subsection \<open>The events of the resume attempts\<close>

declare resumeEvents.simps [simp del]

lemma resume_retry_events:
  "snd (networkRetry n (agent_resumeSession b account args) i w)
     = fold (\<lambda>(event, session). persistHandler account event session)
         (resumeEvents n (resumeSessionCall b (service account) args) i) w"
proof (induction n arbitrary: i w rule: less_induct)
  case (less n)
  let ?att = "resumeSessionCall b (service account) args"
  let ?h = "\<lambda>(event, session). persistHandler account event session"
  obtain r w' where res: "agent_resumeSession b account args i w = (r, w')"
    by (cases "agent_resumeSession b account args i w")
  have w': "w' = fold ?h (persistEvents (?att i)) w"
    using res by (simp add: agent_resumeSession_def Let_def split: call_outcome.splits)
  have r: "r = (case outcome (?att i) of Throws e \<Rightarrow> Inl e | Returns s \<Rightarrow> Inr s)"
    using res by (simp add: agent_resumeSession_def Let_def split: call_outcome.splits)
  note unf = networkRetry_unfold
    [where fn = "agent_resumeSession b account args" and i=i and w=w and n=n, OF res]
  show ?case
  proof (cases "outcome (?att i)")
    case (Returns s)
    then show ?thesis using unf r w' by (simp add: resumeEvents.simps[of n ?att i])
  next
    case (Throws e)
    show ?thesis
    proof (cases n)
      case 0
      then show ?thesis using unf r w' Throws by (simp add: resumeEvents.simps[of 0 ?att i])
    next
      case (Suc m)
      show ?thesis
      proof (cases m)
        case 0
        then show ?thesis using unf r w' Throws Suc
          by (simp add: resumeEvents.simps[of "Suc 0" ?att i])
      next
        case (Suc k)
        have ih: "snd (networkRetry (Suc k) (agent_resumeSession b account args) (Suc i) w')
            = fold ?h (resumeEvents (Suc k) ?att (Suc i)) w'"
          using less.IH[of "Suc k" "Suc i" w'] Suc \<open>n = Suc m\<close> by simp
        show ?thesis using unf r w' Throws Suc \<open>n = Suc m\<close> ih
          by (simp add: resumeEvents.simps[of "Suc (Suc k)" ?att i])
      qed
    qed
  qed
qed

lemma events_last_state:
  "state (fold (\<lambda>(event, session). persistHandler account event session) (rest @ [(ev, s)]) w)
     = apply_updater
         (UpsertAccount (persistSession_refreshedAccount account s) (persistSession_expired ev))
         (state (fold (\<lambda>(event, session). persistHandler account event session) rest w))"
  by (simp add: persistHandler_def createPersistSessionHandler_def Let_def state_proj
      del: apply_updater.simps)

subsection \<open>The example traces\<close>

lemma login_alice:
  "login aliceBackend aliceLogin w =
     (Inr (), emitSessionLoaded alice (upsertAccount alice False
        (queryClient_clear (w\<lparr>globalAgent := BskyAgent ''s'' (Some aliceSession) alice\<rparr>))))"
  by (simp add: login_def aliceBackend_def scriptedBackend_def aliceLogin_def aliceSession_def
      alice_def or_false_def Let_def)

lemma aliceActive_world:
  "aliceActive =
     \<lparr>state = \<lparr>isInitialLoad = False, isSwitchingAccounts = False,
               accounts = [alice, bob], currentAccount = Some alice\<rparr>,
      setStateCalls = [SetIsInitialLoad False, UpsertAccount alice False], isDirty = True,
      globalAgent = BskyAgent ''s'' (Some aliceSession) alice,
      queryClears = 1, emitted = [SessionLoaded alice], errorLog = []\<rparr>"
  by (simp add: aliceActive_def login_alice resumeSession_def world_defs initialWorld_def
      initialState_def alice_def bob_def)

lemma state_login_alice:
  "state (snd (login aliceBackend aliceLogin w)) = apply_updater (UpsertAccount alice False) (state w)"
  by (simp add: login_alice state_proj del: apply_updater.simps)

lemma calls_login_alice:
  "setStateCalls (snd (login aliceBackend aliceLogin w)) = setStateCalls w @ [UpsertAccount alice False]"
  by (simp add: login_alice world_defs)

lemma bob_resume:
  "networkRetry 3 (agent_resumeSession bobBackend bob (resumeArgs bob)) 0 w
     = (Inr (Some bobSession), persistHandler bob ''create'' (Some bobSession) w)"
  by (simp add: networkRetry.simps agent_resumeSession_def bobBackend_def scriptedBackend_def)

lemma bob_refreshed: "persistSession_refreshedAccount bob (Some bobSession) = bobFresh"
  by (simp add: persistSession_refreshedAccount_def bob_def bobSession_def bobFresh_def
      or_string_def or_string_opt_def or_bool_opt_def)

lemma bob_freshAccount: "freshAccountOf bobBackend bob bobSession = bobFresh"
  by (simp add: freshAccountOf_def bobBackend_def scriptedBackend_def bob_def bobSession_def
      bobFresh_def or_false_def)

lemma select_bob:
  "selectAccount bobBackend bob w =
     (Inr (), setState (SetIsSwitchingAccounts False)
        (snd (initSession bobBackend bob (setState (SetIsSwitchingAccounts True) w))))"
  by (simp add: selectAccount_def Let_def initSession_success[OF bob_resume])


lemma removed_trace_state:
  "state (run [(aliceBackend, OpLogin aliceLogin), (aliceBackend, OpRemoveAccount alice)]
            (initialWorld ps))
     = \<lparr>isInitialLoad = True, isSwitchingAccounts = False,
        accounts = filter (\<lambda>a. did a \<noteq> ''did:1'') ps, currentAccount = Some alice\<rparr>"
  apply (simp add: state_login_alice state_proj del: apply_updater.simps)
  apply (simp add: initialWorld_def initialState_def alice_def)
  done

lemma removed_trace_calls:
  "setStateCalls (run [(aliceBackend, OpLogin aliceLogin), (aliceBackend, OpRemoveAccount alice)]
            (initialWorld ps))
     = [UpsertAccount alice False, RemoveAccount alice]"
  by (simp add: calls_login_alice removeAccount_def world_defs initialWorld_def)


lemma resume_retry_agent:
  "globalAgent (snd (networkRetry n (agent_resumeSession b account args) i w)) = globalAgent w"
  by (rule resume_retry_closed [where P = "\<lambda>v. globalAgent v = globalAgent w"])
    (simp_all add: world_defs)

lemma switched_trace:
  "run [(aliceBackend, OpLogin aliceLogin), (bobBackend, OpSelectAccount bob),
        (aliceBackend, OpRemoveAccount alice)] (initialWorld [bob])
   = \<lparr>state = \<lparr>isInitialLoad = True, isSwitchingAccounts = False,
               accounts = [bobFresh], currentAccount = Some bobFresh\<rparr>,
      setStateCalls = [UpsertAccount alice False, SetIsSwitchingAccounts True,
        UpsertAccount bobFresh False, UpsertAccount bobFresh False,
        SetIsSwitchingAccounts False, RemoveAccount alice],
      isDirty = True,
      globalAgent = BskyAgent ''s'' (Some bobSession) bob,
      queryClears = 2,
      emitted = [SessionLoaded alice, SessionLoaded bobFresh], errorLog = []\<rparr>"
  apply (simp add: login_alice select_bob initSession_success[OF bob_resume] bob_freshAccount
      persistHandler_def createPersistSessionHandler_def persistSession_expired_def bob_refreshed
      removeAccount_def)
  apply (simp add: world_defs initialWorld_def initialState_def bobFresh_def alice_def bob_def)
  done

lemma dropped_switch:
  "snd (selectAccount droppingBackend bob aliceActive)
   = \<lparr>state = \<lparr>isInitialLoad = False, isSwitchingAccounts = False,
               accounts = [bob\<lparr>refreshJwt := None, accessJwt := None\<rparr>, alice],
               currentAccount = None\<rparr>,
      setStateCalls = [SetIsInitialLoad False, UpsertAccount alice False,
        SetIsSwitchingAccounts True,
        UpsertAccount (bob\<lparr>refreshJwt := None, accessJwt := None\<rparr>) True,
        SetIsSwitchingAccounts False],
      isDirty = True,
      globalAgent = BskyAgent ''s'' (Some aliceSession) alice,
      queryClears = 1,
      emitted = [SessionLoaded alice, SessionDropped], errorLog = []\<rparr>"
  apply (simp add: selectAccount_def dropping_initSession Let_def)
  apply (simp add: handler_defs world_defs aliceActive_world Let_def alice_def bob_def)
  done

lemma delivered_examples:
  "deliveredEvents bobBackend bob = [(''create'', Some bobSession)]"
  "deliveredEvents droppingBackend bob = [(''create-failed'', None)]"
  "deliveredEvents offlineBackend bob = []"
  by (simp_all add: deliveredEvents_def resumeEvents.simps bobBackend_def droppingBackend_def
      offlineBackend_def scriptedBackend_def isNetworkError_def numeral_3_eq_3)

lemma alice_for_bob:
  "selectAccount aliceBackend bob w =
     (Inr (), setState (SetIsSwitchingAccounts False)
        (emitSessionLoaded alice (upsertAccount alice False
          (queryClient_clear
            ((setState (SetIsSwitchingAccounts True) w)
               \<lparr>globalAgent := BskyAgent ''s'' (Some aliceSession) bob\<rparr>)))))"
  by (simp add: selectAccount_def initSession_def networkRetry.simps agent_resumeSession_def
      aliceBackend_def scriptedBackend_def Let_def aliceSession_def alice_def bob_def or_false_def)

subsection \<open>Powers of two, binades and rounding to an integer\<close>

lemma pow2_powr: "pow2 e = 2 powr (of_int e)"
  by (simp add: pow2_def powr_real_of_int inverse_eq_divide)

lemma pow2_pos [simp]: "0 < pow2 e"
  by (simp add: pow2_powr)

lemma pow2_nonzero [simp]: "pow2 e \<noteq> 0"
  using pow2_pos[of e] by linarith

lemma pow2_nonneg [simp]: "0 \<le> pow2 e"
  using pow2_pos[of e] by linarith

lemma pow2_less_iff: "pow2 a < pow2 b \<longleftrightarrow> a < b"
  by (simp add: pow2_powr)

lemma pow2_le_iff: "pow2 a \<le> pow2 b \<longleftrightarrow> a \<le> b"
  by (simp add: pow2_powr)

lemma pow2_add: "pow2 (a + b) = pow2 a * pow2 b"
  by (simp add: pow2_powr powr_add)

lemma pow2_mono: "a \<le> b \<Longrightarrow> pow2 a \<le> pow2 b"
  by (simp add: pow2_powr)

lemma pow2_strict_mono: "a < b \<Longrightarrow> pow2 a < pow2 b"
  by (simp add: pow2_powr)

lemma pow2_nonneg_int: "0 \<le> e \<Longrightarrow> pow2 e = of_int (2 ^ nat e)"
  by (simp add: pow2_def)

lemma floorlog_bounds:
  assumes "0 < x"
  shows "pow2 \<lfloor>log 2 x\<rfloor> \<le> x" and "x < pow2 (\<lfloor>log 2 x\<rfloor> + 1)"
  using floor_log_eq_powr_iff[of x 2 "\<lfloor>log 2 x\<rfloor>"] assms
  by (simp_all add: pow2_powr)

lemma floorlog_eq:
  assumes "0 < x" "pow2 k \<le> x" "x < pow2 (k + 1)"
  shows "\<lfloor>log 2 x\<rfloor> = k"
  using floor_log_eq_powr_iff[of x 2 k] assms by (simp add: pow2_powr)

lemma floorlog_mono:
  assumes "0 < x" "x \<le> y"
  shows "\<lfloor>log 2 x\<rfloor> \<le> \<lfloor>log 2 y\<rfloor>"
  using assms by (intro floor_mono) simp

lemma binadeFrom_low: "x < pow2 (e + 1) \<Longrightarrow> binadeFrom n e x = e"
  by (cases n) simp_all

lemma binadeFrom_eq:
  assumes "pow2 k \<le> x" "x < pow2 (k + 1)" "e \<le> k" "k < e + int n"
  shows "binadeFrom n e x = k"
  using assms(3,4)
proof (induction n arbitrary: e)
  case 0
  then show ?case by simp
next
  case (Suc n)
  show ?case
  proof (cases "x < pow2 (e + 1)")
    case True
    then have "pow2 k < pow2 (e + 1)" using assms(1) by linarith
    then have "k < e + 1" by (simp only: pow2_less_iff)
    then show ?thesis using True Suc.prems by simp
  next
    case False
    then have "pow2 (e + 1) < pow2 (k + 1)" using assms(2) by linarith
    then have "e + 1 < k + 1" by (simp only: pow2_less_iff)
    then have "binadeFrom n (e + 1) x = k" using Suc.prems by (intro Suc.IH) simp_all
    then show ?thesis using False by simp
  qed
qed

lemma binade_log:
  assumes "0 < x" "x < pow2 1024"
  shows "binade x = max \<lfloor>log 2 x\<rfloor> (- 1022)"
proof (cases "x < pow2 (- 1022)")
  case True
  have "pow2 \<lfloor>log 2 x\<rfloor> < pow2 (- 1022)" using floorlog_bounds(1)[OF assms(1)] True by linarith
  then have "\<lfloor>log 2 x\<rfloor> < - 1022" by (simp only: pow2_less_iff)
  moreover have "x < pow2 (- 1022 + 1)" using True pow2_mono[of "- 1022" "- 1022 + 1"] by linarith
  then have "binade x = - 1022" unfolding binade_def by (rule binadeFrom_low)
  ultimately show ?thesis by simp
next
  case False
  define k where "k = \<lfloor>log 2 x\<rfloor>"
  have b: "pow2 k \<le> x" "x < pow2 (k + 1)" using floorlog_bounds[OF assms(1)] by (simp_all add: k_def)
  have "pow2 (- 1022) < pow2 (k + 1)" using False b(2) by linarith
  then have lo: "- 1022 < k + 1" by (simp only: pow2_less_iff)
  have "pow2 k < pow2 1024" using b(1) assms(2) by linarith
  then have hi: "k < 1024" by (simp only: pow2_less_iff)
  have "binadeFrom 2046 (- 1022) x = k" using b lo hi by (intro binadeFrom_eq) simp_all
  then show ?thesis using lo by (simp add: binade_def k_def)
qed

lemma roundEven_err: "\<bar>of_int (roundEven y) - y\<bar> \<le> 1 / 2"
  unfolding roundEven_def Let_def by (auto simp: abs_if) linarith+

lemma roundEven_le_int: "y \<le> of_int K \<Longrightarrow> roundEven y \<le> K"
  using roundEven_err[of y] by (auto simp: abs_if split: if_splits)

lemma roundEven_ge_int: "of_int K \<le> y \<Longrightarrow> K \<le> roundEven y"
  using roundEven_err[of y] by (auto simp: abs_if split: if_splits)

lemma roundEven_of_int [simp]: "roundEven (of_int n) = n"
  by (simp add: roundEven_def)

subsection \<open>Rounding to a double\<close>

lemma pow2_diff_52: "pow2 e / pow2 (e - 52) = pow2 52"
proof -
  have "pow2 e = pow2 (e - 52) * pow2 52" using pow2_add[of "e - 52" 52] by simp
  then show ?thesis by simp
qed

lemma binade_normal:
  assumes "pow2 (- 1022) \<le> x" and "x < pow2 1024"
  shows "binade x = \<lfloor>log 2 x\<rfloor>" and "- 1022 \<le> binade x"
proof -
  have x: "0 < x" using assms(1) pow2_pos[of "- 1022"] by linarith
  have "pow2 (- 1022) < pow2 (\<lfloor>log 2 x\<rfloor> + 1)"
    using floorlog_bounds(2)[OF x] assms(1) by linarith
  then have "- 1022 < \<lfloor>log 2 x\<rfloor> + 1" by (simp only: pow2_less_iff)
  then show "binade x = \<lfloor>log 2 x\<rfloor>" "- 1022 \<le> binade x"
    by (simp_all add: binade_log[OF x assms(2)])
qed

lemma roundDouble_normal:
  assumes lo: "pow2 (- 1022) \<le> x" and hi: "x < pow2 1023"
  shows "\<exists>y. roundDouble x = MFinite y \<and> 0 < y \<and> \<bar>y - x\<bar> \<le> x * pow2 (- 53)"
proof -
  have x: "0 < x" using lo pow2_pos[of "- 1022"] by linarith
  define e where "e = \<lfloor>log 2 x\<rfloor>"
  have "pow2 1023 < pow2 1024" by (simp add: pow2_less_iff)
  then have hi': "x < pow2 1024" using hi by linarith
  have be: "binade x = e" using binade_normal[OF lo hi'] e_def by simp
  have b1: "pow2 e \<le> x" and b2: "x < pow2 (e + 1)"
    using floorlog_bounds[OF x] e_def by simp_all
  have "pow2 e < pow2 1023" using b1 hi by linarith
  then have e_hi: "e < 1023" by (simp only: pow2_less_iff)
  define u where "u = pow2 (e - 52)"
  have u: "ulp x = u" "0 < u" by (simp_all add: ulp_def be u_def)
  define t where "t = x / u"
  have "pow2 e / u \<le> x / u" using b1 u(2) by (intro divide_right_mono) simp_all
  then have t1: "pow2 52 \<le> t"
    using pow2_diff_52[of e] by (simp only: t_def u_def)
  have "pow2 (e + 1) = pow2 (e - 52) * pow2 53"
    using pow2_add[of "e - 52" 53] by (simp add: add.commute)
  then have e53: "pow2 (e + 1) / pow2 (e - 52) = pow2 53" by simp
  have "x / u < pow2 (e + 1) / u" using b2 u(2) by (intro divide_strict_right_mono) simp_all
  then have t2: "t < pow2 53"
    using e53 by (simp only: t_def u_def)
  define n where "n = roundEven t"
  have n1: "2 ^ 52 \<le> n"
    using roundEven_ge_int[of "2 ^ 52" t] t1 by (simp add: n_def pow2_def)
  have n2: "n \<le> 2 ^ 53"
    using roundEven_le_int[of t "2 ^ 53"] t2 by (simp add: n_def pow2_def)
  define y where "y = of_int n * u"
  have ypos: "0 < y" using n1 u(2) by (simp add: y_def)
  have "y \<le> of_int (2 ^ 53) * u" using n2 u(2) unfolding y_def
    by (intro mult_right_mono) (simp_all only: of_int_le_iff)
  also have "\<dots> = pow2 (e + 1)"
  proof -
    have "real_of_int (2 ^ 53) = pow2 53" by (simp add: pow2_def)
    then show ?thesis using \<open>pow2 (e + 1) = pow2 (e - 52) * pow2 53\<close>
      by (simp only: u_def mult.commute)
  qed
  also have "\<dots> \<le> pow2 1023" using e_hi by (intro pow2_mono) simp
  also have "\<dots> < pow2 1024" by (intro pow2_strict_mono) simp
  finally have yhi: "y < pow2 1024" .
  have rd: "roundDouble x = MFinite y"
  proof -
    have "rounded x = y" by (simp add: rounded_def u y_def n_def t_def)
    then show ?thesis using ypos yhi by (simp add: roundDouble_def Let_def)
  qed
  have "\<bar>of_int n - t\<bar> \<le> 1 / 2" unfolding n_def by (rule roundEven_err)
  then have "\<bar>of_int n - t\<bar> * u \<le> 1 / 2 * u" using u(2) by (intro mult_right_mono) simp_all
  moreover have "\<bar>y - x\<bar> = \<bar>of_int n - t\<bar> * u"
  proof -
    have "y - x = (of_int n - t) * u" using u(2) by (simp add: y_def t_def algebra_simps)
    then show ?thesis using u(2) by (simp add: abs_mult)
  qed
  moreover have "1 / 2 * u = pow2 e * pow2 (- 53)"
  proof -
    have "pow2 (e - 52) = pow2 e * pow2 (- 52)" using pow2_add[of e "- 52"] by simp
    moreover have "1 / 2 * pow2 (- 52) = pow2 (- 53)" by (simp add: pow2_def)
    ultimately show ?thesis by (simp add: u_def)
  qed
  moreover have "pow2 e * pow2 (- 53) \<le> x * pow2 (- 53)"
    using b1 by (intro mult_right_mono) simp_all
  ultimately have "\<bar>y - x\<bar> \<le> x * pow2 (- 53)" by linarith
  with rd ypos show ?thesis by blast
qed

lemma binade_mono:
  assumes "0 < x" "x \<le> y" "y < pow2 1024"
  shows "binade x \<le> binade y"
proof -
  have "binade x = max \<lfloor>log 2 x\<rfloor> (- 1022)" using assms by (intro binade_log) simp_all
  moreover have "binade y = max \<lfloor>log 2 y\<rfloor> (- 1022)" using assms by (intro binade_log) simp_all
  ultimately show ?thesis using floorlog_mono[OF assms(1,2)] by simp
qed

lemma roundDouble_fixed:
  assumes "roundDouble m = MFinite m"
  shows "rounded m = m" and "m < pow2 1024"
  using assms by (simp_all add: roundDouble_def Let_def split: if_splits)

lemma roundDouble_cases:
  "roundDouble x = MZero \<and> rounded x = 0
   \<or> roundDouble x = MInfinity \<and> pow2 1024 \<le> rounded x
   \<or> roundDouble x = MFinite (rounded x) \<and> rounded x \<noteq> 0 \<and> rounded x < pow2 1024"
  by (simp add: roundDouble_def Let_def)

lemma roundDouble_nonneg:
  assumes "0 \<le> x"
  shows "0 \<le> rounded x"
proof -
  have "0 \<le> x / ulp x" using assms by (simp add: ulp_def)
  then have "0 \<le> roundEven (x / ulp x)" using roundEven_ge_int[of 0 "x / ulp x"] by simp
  then show ?thesis by (simp add: rounded_def ulp_def)
qed

lemma roundDouble_le_double:
  assumes x: "0 < x" and le: "x \<le> m" and m: "roundDouble m = MFinite m"
  shows "roundDouble x = MZero \<or> (\<exists>y. roundDouble x = MFinite y \<and> 0 < y \<and> y \<le> m)"
proof -
  define j where "j = binade m - binade x"
  have j: "0 \<le> j" using binade_mono[OF x le roundDouble_fixed(2)[OF m]] by (simp add: j_def)
  have um: "ulp m = pow2 j * ulp x"
    using pow2_add[of j "binade x - 52"] by (simp add: ulp_def j_def)
  define K where "K = roundEven (m / ulp m) * 2 ^ nat j"
  have mK: "m = of_int K * ulp x"
  proof -
    have "m = of_int (roundEven (m / ulp m)) * (pow2 j * ulp x)"
      using roundDouble_fixed(1)[OF m] um by (simp add: rounded_def)
    also have "pow2 j = of_int (2 ^ nat j)" using j by (rule pow2_nonneg_int)
    finally show ?thesis by (simp add: K_def)
  qed
  have ux: "0 < ulp x" by (simp add: ulp_def)
  have "x / ulp x \<le> m / ulp x" using le ux by (intro divide_right_mono) simp_all
  also have "m / ulp x = of_int K" using mK ux by simp
  finally have "roundEven (x / ulp x) \<le> K" by (rule roundEven_le_int)
  then have "of_int (roundEven (x / ulp x)) * ulp x \<le> of_int K * ulp x"
    using ux by (intro mult_right_mono) simp_all
  then have ym: "rounded x \<le> m" using mK by (simp add: rounded_def)
  have y0: "0 \<le> rounded x"
    using x by (intro roundDouble_nonneg) simp
  have "m < pow2 1024" using roundDouble_fixed(2)[OF m] .
  then show ?thesis using roundDouble_cases[of x] ym y0 by auto
qed

text \<open>evaluation at a known binade\<close>

lemma roundDouble_eval:
  assumes "pow2 e \<le> x" and "x < pow2 (e + 1)" and "- 1022 \<le> e" and "e < 1023"
    and "roundEven (x / pow2 (e - 52)) = n"
  shows "roundDouble x = MFinite (of_int n * pow2 (e - 52))"
proof -
  have x: "0 < x" using assms(1) pow2_pos[of e] by linarith
  have lo: "pow2 (- 1022) \<le> x" using assms(1,3) pow2_mono[of "- 1022" e] by linarith
  have hi: "x < pow2 1023" using assms(2,4) pow2_mono[of "e + 1" 1023] by simp
  have "binadeFrom 2046 (- 1022) x = e" using assms(1,2,3,4) by (intro binadeFrom_eq) simp_all
  then have be: "binade x = e" by (simp add: binade_def)
  obtain y where "roundDouble x = MFinite y" using roundDouble_normal[OF lo hi] by blast
  then show ?thesis using roundDouble_cases[of x] assms(5) be by (auto simp: rounded_def ulp_def)
qed

lemma rd_13_9: "roundDouble (13 / 9) = MFinite (6505199461757383 / 4503599627370496)"
proof -
  have "roundEven (13 / 9 / pow2 (0 - 52)) = 6505199461757383"
    by (simp add: pow2_def roundEven_def Let_def)
  from roundDouble_eval[where e=0 and x="13/9", OF _ _ _ _ this]
  show ?thesis by (simp add: pow2_def)
qed

subsection \<open>Signs of products and quotients\<close>

text \<open>positivity of quotients and products of doubles\<close>

lemma roundDouble_pos:
  assumes "0 < x" "roundDouble x = MFinite y"
  shows "0 < y"
  using roundDouble_cases[of x] roundDouble_nonneg[of x] assms by auto

lemma jsle_below:
  assumes "0 < m" and "g = MZero \<or> (\<exists>y. g = MFinite y \<and> 0 < y \<and> y \<le> m)"
  shows "jsle (Number False g) (posnum m)"
  using assms by (auto simp: jsle_def posnum_def)

lemma jsle_negative:
  assumes "0 < m" and "g = MZero \<or> g = MInfinity \<or> (\<exists>y. g = MFinite y \<and> 0 < y)"
  shows "jsle (Number True g) (posnum m)"
  using assms by (auto simp: jsle_def posnum_def)

lemma roundDouble_shape:
  assumes "0 < x"
  shows "roundDouble x = MZero \<or> roundDouble x = MInfinity
         \<or> (\<exists>y. roundDouble x = MFinite y \<and> 0 < y)"
  using roundDouble_cases[of x] roundDouble_nonneg[of x] assms by auto

lemma isDouble_jsdiv:
  assumes "isDouble a" "isDouble b"
  shows "case jsdiv a b of Number s (MFinite x) \<Rightarrow> 0 < x | _ \<Rightarrow> True"
proof (cases "jsdiv a b")
  case NaN
  then show ?thesis by simp
next
  case (Number s g)
  show ?thesis
  proof (cases g)
    case (MFinite z)
    obtain sa x sb y where ab: "a = Number sa (MFinite x)" "b = Number sb (MFinite y)"
      using Number MFinite
      by (cases a; cases b) (auto elim!: jsdiv.elims)
    then have "0 < x" "0 < y" using assms by (simp_all add: isDouble_def)
    then have "0 < x / y" by simp
    moreover have "roundDouble (x / y) = MFinite z" using Number MFinite ab by simp
    ultimately have "0 < z" by (rule roundDouble_pos)
    then show ?thesis using Number MFinite by simp
  qed (simp_all add: Number)
qed

lemma isDouble_positive: "isDouble a \<Longrightarrow> positiveMagnitude a"
  by (auto simp: isDouble_def positiveMagnitude_def split: number.splits magnitude.splits)

lemma posnum_positive: "0 < x \<Longrightarrow> positiveMagnitude (posnum x)"
  by (simp add: positiveMagnitude_def posnum_def)

lemma jsdiv_positive:
  assumes "positiveMagnitude a" "positiveMagnitude b"
  shows "positiveMagnitude (jsdiv a b)"
proof (cases "jsdiv a b")
  case NaN
  then show ?thesis by (simp add: positiveMagnitude_def)
next
  case (Number s g)
  show ?thesis
  proof (cases g)
    case (MFinite z)
    obtain sa x sb y where ab: "a = Number sa (MFinite x)" "b = Number sb (MFinite y)"
      using Number MFinite
      by (cases a; cases b) (auto elim!: jsdiv.elims)
    then have "0 < x" "0 < y" using assms by (simp_all add: positiveMagnitude_def)
    then have "0 < x / y" by simp
    moreover have "roundDouble (x / y) = MFinite z" using Number MFinite ab by simp
    ultimately have "0 < z" by (rule roundDouble_pos)
    then show ?thesis using Number MFinite by (simp add: positiveMagnitude_def)
  qed (simp_all add: Number positiveMagnitude_def)
qed

lemma ratioMultipliers_positive:
  assumes "positiveMagnitude (image_width img)" "positiveMagnitude (image_height img)"
  shows "positiveMagnitude (ratioMultipliers img as)"
  using assms
  by (cases as) (simp_all add: ratioMultipliers_def jsdiv_positive posnum_positive)

lemma scaled_side_below:
  assumes m: "0 < m" "roundDouble m = MFinite m" and r: "positiveMagnitude r" "r \<noteq> NaN"
    and ne: "\<not> jseq r (posnum 1)"
  shows "jslt r (posnum 1) \<longrightarrow> jsle (jsmul (posnum m) r) (posnum m)"
    and "\<not> jslt r (posnum 1) \<longrightarrow> jsle (jsdiv (posnum m) r) (posnum m)"
proof -
  obtain s g where rg: "r = Number s g" using r(2) by (cases r) simp_all
  show "jslt r (posnum 1) \<longrightarrow> jsle (jsmul (posnum m) r) (posnum m)"
  proof (cases g)
    case MZero
    then show ?thesis using rg m(1) by (cases s) (simp_all add: posnum_def jsle_def)
  next
    case MInfinity
    then show ?thesis using rg m(1) by (cases s) (simp_all add: posnum_def jsle_def)
  next
    case (MFinite x)
    then have x: "0 < x" using r(1) rg by (simp add: positiveMagnitude_def)
    have mx: "0 < m * x" using m(1) x by simp
    show ?thesis
    proof (cases s)
      case True
      have "jsmul (posnum m) r = Number True (roundDouble (m * x))"
        using rg MFinite True by (simp add: posnum_def)
      then show ?thesis using jsle_negative[OF m(1), of "roundDouble (m * x)"]
          roundDouble_shape[OF mx] by simp
    next
      case False
      have eq: "jsmul (posnum m) r = Number False (roundDouble (m * x))"
        using rg MFinite False by (simp add: posnum_def)
      show ?thesis
      proof
        assume "jslt r (posnum 1)"
        then have "x < 1" using rg MFinite False by (simp add: posnum_def)
        then have "m * x \<le> m" using m(1) by simp
        from roundDouble_le_double[OF mx this m(2)]
        show "jsle (jsmul (posnum m) r) (posnum m)"
          unfolding eq by (intro jsle_below[OF m(1)]) 
      qed
    qed
  qed
  show "\<not> jslt r (posnum 1) \<longrightarrow> jsle (jsdiv (posnum m) r) (posnum m)"
  proof (cases g)
    case MZero
    then show ?thesis using rg by (cases s) (simp_all add: posnum_def)
  next
    case MInfinity
    then show ?thesis using rg m(1) by (cases s) (simp_all add: posnum_def jsle_def)
  next
    case (MFinite x)
    then have x: "0 < x" using r(1) rg by (simp add: positiveMagnitude_def)
    show ?thesis
    proof (cases s)
      case True
      then show ?thesis using rg MFinite x by (simp add: posnum_def)
    next
      case False
      have eq: "jsdiv (posnum m) r = Number False (roundDouble (m / x))"
        using rg MFinite False by (simp add: posnum_def)
      show ?thesis
      proof
        assume "\<not> jslt r (posnum 1)"
        then have "1 \<le> x" using rg MFinite False by (simp add: posnum_def)
        then have "m / x \<le> m" using m(1) x by (simp add: field_simps)
        moreover have "0 < m / x" using m(1) x by simp
        ultimately show "jsle (jsdiv (posnum m) r) (posnum m)"
          unfolding eq using roundDouble_le_double[of "m / x" m] m(2)
          by (intro jsle_below[OF m(1)]) simp
      qed
    qed
  qed
qed

lemma jsle_refl_posnum: "jsle (posnum m) (posnum m)"
  by (simp add: jsle_def posnum_def)

lemma resized_longer_side:
  assumes m: "0 < m" "roundDouble m = MFinite m"
    and img: "positiveMagnitude (image_width img)" "positiveMagnitude (image_height img)"
    and r: "ratioMultipliers img (as_or_default as) \<noteq> NaN"
  shows "longerSideIs (posnum m) (getResizedDimensions img as (posnum m))"
proof -
  let ?r = "ratioMultipliers img (as_or_default as)"
  have pos: "positiveMagnitude ?r" using img by (rule ratioMultipliers_positive)
  show ?thesis
  proof (cases "jseq ?r (posnum 1)")
    case True
    then show ?thesis
      by (simp add: getResizedDimensions_def longerSideIs_def jsle_refl_posnum)
  next
    case False
    from scaled_side_below[OF m pos r False] show ?thesis
      using False by (simp add: getResizedDimensions_def longerSideIs_def Let_def)
  qed
qed

subsection \<open>The ratio of the resized dimensions\<close>

lemma rd_1: "roundDouble 1 = MFinite 1"
  using roundDouble_eval[where e=0 and x=1 and n="2^52"]
  by (simp add: pow2_def roundEven_def)

lemma rd_3_4: "roundDouble (3 / 4) = MFinite (3 / 4)"
  using roundDouble_eval[where e="-1" and x="3/4" and n="3 * 2^51"]
  by (simp add: pow2_def roundEven_def)

lemma rd_4_3: "roundDouble (4 / 3) = MFinite (6004799503160661 / 4503599627370496)"
  using roundDouble_eval[where e=0 and x="4/3" and n="6004799503160661"]
  by (simp add: pow2_def roundEven_def Let_def)

lemma ratio_3_4: "ratioMultipliers img Ratio_3_4 = posnum (3 / 4)"
  by (simp add: ratioMultipliers_def posnum_def rd_3_4)

lemma ratio_4_3:
  "ratioMultipliers img Ratio_4_3 = posnum (6004799503160661 / 4503599627370496)"
  by (simp add: ratioMultipliers_def posnum_def rd_4_3)

lemma ratio_one:
  assumes "0 < m" "jseq (ratioMultipliers img (as_or_default as)) (posnum 1)"
  shows "jsdiv (width (getResizedDimensions img as (posnum m)))
           (height (getResizedDimensions img as (posnum m))) = posnum 1"
  using assms by (simp add: getResizedDimensions_def posnum_def rd_1)

lemma ratio_exact_3_4:
  assumes "0 < m" "as_or_default as = Ratio_3_4"
    and "jsmul (posnum m) (ratioMultipliers img Ratio_3_4) = posnum (m * (3 / 4))"
  shows "jsdiv (width (getResizedDimensions img as (posnum m)))
           (height (getResizedDimensions img as (posnum m))) = ratioMultipliers img Ratio_3_4"
proof -
  have "(m * (3 / 4)) / m = 3 / 4" using assms(1) by simp
  then show ?thesis using assms
    by (simp add: getResizedDimensions_def ratio_3_4 posnum_def rd_3_4)
qed

lemma ratio_exact_4_3:
  assumes "0 < m" "as_or_default as = Ratio_4_3"
    and "jsdiv (posnum m) (ratioMultipliers img Ratio_4_3) = posnum (m * (3 / 4))"
  shows "jsdiv (width (getResizedDimensions img as (posnum m)))
           (height (getResizedDimensions img as (posnum m))) = ratioMultipliers img Ratio_4_3"
proof -
  have "m / (m * (3 / 4)) = 4 / 3" using assms(1) by simp
  then show ?thesis using assms
    by (simp add: getResizedDimensions_def ratio_4_3 posnum_def rd_4_3)
qed

lemma roundDouble_near:
  assumes "pow2 (- 1022) \<le> x" and "x < pow2 1023"
  obtains y where "roundDouble x = MFinite y" and "0 < y"
    and "x * (1 - pow2 (- 53)) \<le> y" and "y \<le> x * (1 + pow2 (- 53))"
proof -
  obtain y where y: "roundDouble x = MFinite y" "0 < y" "\<bar>y - x\<bar> \<le> x * pow2 (- 53)"
    using roundDouble_normal[OF assms] by blast
  have "x * (1 - pow2 (- 53)) \<le> y" "y \<le> x * (1 + pow2 (- 53))"
    using y(3) by (simp_all add: algebra_simps abs_le_iff)
  with y(1,2) show ?thesis using that by blast
qed

lemma unit_roundoff:
  "0 < pow2 (- 53)" "pow2 (- 53) < 1"
  "(1 + pow2 (- 53)) * (1 + pow2 (- 53)) \<le> 1 + pow2 (- 51)"
  "1 - pow2 (- 51) \<le> (1 - pow2 (- 53)) * (1 - pow2 (- 53))"
  "1 + pow2 (- 53) \<le> (1 - pow2 (- 53)) * (1 + pow2 (- 51))"
  "(1 + pow2 (- 53)) * (1 - pow2 (- 51)) \<le> 1 - pow2 (- 53)"
  "1 + pow2 (- 53) \<le> 2" "1 / 2 \<le> 1 - pow2 (- 53)"
  by (simp_all add: pow2_def)

lemma pow2_facts:
  "pow2 (- 1021) * (1 / 2) = pow2 (- 1022)"
  "pow2 1022 * 2 = pow2 1023"
  "2 < pow2 1023"
  "pow2 (- 1022) \<le> 1 / 2"
proof -
  show "pow2 (- 1021) * (1 / 2) = pow2 (- 1022)"
    using pow2_add[of "- 1021" "- 1"] by (simp add: pow2_def[of "- 1"])
  show "pow2 1022 * 2 = pow2 1023"
    using pow2_add[of 1022 1] by (simp add: pow2_def[of 1])
  have "pow2 1 < pow2 1023" by (simp add: pow2_less_iff)
  then show "2 < pow2 1023" by (simp add: pow2_def[of 1])
  have "pow2 (- 1022) \<le> pow2 (- 1)" by (simp add: pow2_le_iff)
  then show "pow2 (- 1022) \<le> 1 / 2" by (simp add: pow2_def[of "- 1"])
qed

lemma chain_mul:
  fixes m r0 u e w q :: real
  assumes "0 < m" "0 < r0" "0 < u" "u < 1"
    and w: "m * r0 * (1 - u) \<le> w" "w \<le> m * r0 * (1 + u)"
    and q: "w / m * (1 - u) \<le> q" "q \<le> w / m * (1 + u)"
    and e: "(1 + u) * (1 + u) \<le> 1 + e" "1 - e \<le> (1 - u) * (1 - u)"
  shows "r0 * (1 - u) \<le> w / m" and "w / m \<le> r0 * (1 + u)" and "\<bar>q - r0\<bar> \<le> r0 * e"
proof -
  have lo: "r0 * (1 - u) \<le> w / m"
    using w(1) \<open>0 < m\<close> by (simp add: field_simps)
  have hi: "w / m \<le> r0 * (1 + u)"
    using w(2) \<open>0 < m\<close> by (simp add: field_simps)
  show "r0 * (1 - u) \<le> w / m" "w / m \<le> r0 * (1 + u)" by fact+
  have "q \<le> r0 * (1 + u) * (1 + u)"
    using q(2) mult_right_mono[OF hi, of "1 + u"] \<open>0 < u\<close> by simp
  also have "\<dots> = r0 * ((1 + u) * (1 + u))" by simp
  also have "\<dots> \<le> r0 * (1 + e)" using e(1) \<open>0 < r0\<close> by (intro mult_left_mono) simp_all
  finally have up: "q \<le> r0 * (1 + e)" .
  have "r0 * (1 - e) \<le> r0 * ((1 - u) * (1 - u))"
    using e(2) \<open>0 < r0\<close> by (intro mult_left_mono) simp_all
  also have "\<dots> = r0 * (1 - u) * (1 - u)" by simp
  also have "\<dots> \<le> w / m * (1 - u)"
    using mult_right_mono[OF lo, of "1 - u"] \<open>u < 1\<close> by simp
  also have "\<dots> \<le> q" by (rule q(1))
  finally have dn: "r0 * (1 - e) \<le> q" .
  show "\<bar>q - r0\<bar> \<le> r0 * e" using up dn by (simp add: algebra_simps abs_le_iff)
qed

lemma chain_div:
  fixes m r0 u e h q :: real
  assumes "0 < m" "0 < r0" "0 < u" "u < 1" "0 < h"
    and h: "m / r0 * (1 - u) \<le> h" "h \<le> m / r0 * (1 + u)"
    and q: "m / h * (1 - u) \<le> q" "q \<le> m / h * (1 + u)"
    and e: "1 + u \<le> (1 - u) * (1 + e)" "(1 + u) * (1 - e) \<le> 1 - u"
  shows "r0 \<le> m / h * (1 + u)" and "m / h * (1 - u) \<le> r0" and "\<bar>q - r0\<bar> \<le> r0 * e"
proof -
  have a: "m / h * (1 - u) \<le> r0"
  proof -
    have "m * (1 - u) \<le> h * r0" using h(1) \<open>0 < r0\<close> by (simp add: field_simps)
    then show ?thesis using \<open>0 < h\<close> by (simp add: field_simps)
  qed
  have b: "r0 \<le> m / h * (1 + u)"
  proof -
    have "h * r0 \<le> m * (1 + u)" using h(2) \<open>0 < r0\<close> by (simp add: field_simps)
    then show ?thesis using \<open>0 < h\<close> by (simp add: field_simps)
  qed
  show "r0 \<le> m / h * (1 + u)" "m / h * (1 - u) \<le> r0" by fact+
  have mh: "0 < m / h" using \<open>0 < m\<close> \<open>0 < h\<close> by simp
  have "q * (1 - u) \<le> m / h * (1 + u) * (1 - u)"
    using mult_right_mono[OF q(2), of "1 - u"] \<open>u < 1\<close> by simp
  also have "\<dots> = (m / h * (1 - u)) * (1 + u)" by simp
  also have "\<dots> \<le> r0 * (1 + u)" using mult_right_mono[OF a, of "1 + u"] \<open>0 < u\<close> by simp
  also have "\<dots> \<le> r0 * ((1 - u) * (1 + e))"
    using e(1) \<open>0 < r0\<close> by (intro mult_left_mono) simp_all
  finally have "q * (1 - u) \<le> (r0 * (1 + e)) * (1 - u)" by (simp add: mult_ac)
  then have up: "q \<le> r0 * (1 + e)" using \<open>u < 1\<close> by simp
  have "(r0 * (1 - e)) * (1 + u) = r0 * ((1 + u) * (1 - e))" by simp
  also have "\<dots> \<le> r0 * (1 - u)" using e(2) \<open>0 < r0\<close> by (intro mult_left_mono) simp_all
  also have "\<dots> \<le> (m / h * (1 + u)) * (1 - u)"
    using mult_right_mono[OF b, of "1 - u"] \<open>u < 1\<close> by simp
  also have "\<dots> = (m / h * (1 - u)) * (1 + u)" by simp
  also have "\<dots> \<le> q * (1 + u)" using mult_right_mono[OF q(1), of "1 + u"] \<open>0 < u\<close> by simp
  finally have "(r0 * (1 - e)) * (1 + u) \<le> q * (1 + u)" .
  then have dn: "r0 * (1 - e) \<le> q" using \<open>0 < u\<close> by simp
  show "\<bar>q - r0\<bar> \<le> r0 * e" using up dn by (simp add: algebra_simps abs_le_iff)
qed

lemma chain_div_mid:
  fixes m r0 u h :: real
  assumes "0 < m" "0 < r0" "0 < u" "u < 1" "0 < h"
    and h: "m / r0 * (1 - u) \<le> h" "h \<le> m / r0 * (1 + u)"
  shows "r0 \<le> m / h * (1 + u)" and "m / h * (1 - u) \<le> r0"
proof -
  have "m * (1 - u) \<le> h * r0" using h(1) \<open>0 < r0\<close> by (simp add: field_simps)
  then show "m / h * (1 - u) \<le> r0" using \<open>0 < h\<close> by (simp add: field_simps)
  have "h * r0 \<le> m * (1 + u)" using h(2) \<open>0 < r0\<close> by (simp add: field_simps)
  then show "r0 \<le> m / h * (1 + u)" using \<open>0 < h\<close> by (simp add: field_simps)
qed

lemma ratio_near:
  assumes m: "0 < m" "m < pow2 1023"
    and r0: "pow2 (- 1021) \<le> r0" "r0 < pow2 1022"
    and side: "pow2 (- 1022) \<le> m * r0" "pow2 (- 1022) \<le> m / r0"
    and r: "ratioMultipliers img (as_or_default as) = posnum r0"
  shows "\<exists>q. jsdiv (width (getResizedDimensions img as (posnum m)))
                (height (getResizedDimensions img as (posnum m))) = posnum q
             \<and> \<bar>q - r0\<bar> \<le> r0 * pow2 (- 51)"
proof -
  let ?u = "pow2 (- 53)"
  have mpos: "0 < m" by (rule m(1))
  have rpos: "0 < r0" using r0(1) pow2_pos[of "- 1021"] by linarith
  consider "r0 = 1" | "r0 < 1" | "1 < r0" by linarith
  then show ?thesis
  proof cases
    case 1
    have "jsdiv (width (getResizedDimensions img as (posnum m)))
                (height (getResizedDimensions img as (posnum m))) = posnum 1"
      using mpos r 1 by (simp add: getResizedDimensions_def posnum_def rd_1)
    then show ?thesis using 1 by (intro exI[of _ 1]) simp
  next
    case 2
    have res: "getResizedDimensions img as (posnum m)
                 = \<lparr>width = Number False (roundDouble (m * r0)), height = posnum m\<rparr>"
      using r 2 by (simp add: getResizedDimensions_def posnum_def)
    have "m * r0 < m" using 2 mpos by simp
    then have hi1: "m * r0 < pow2 1023" using m(2) by linarith
    obtain w where w: "roundDouble (m * r0) = MFinite w" "0 < w"
        "m * r0 * (1 - ?u) \<le> w" "w \<le> m * r0 * (1 + ?u)"
      using roundDouble_near[OF side(1) hi1] by blast
    have wm: "r0 * (1 - ?u) \<le> w / m" "w / m \<le> r0 * (1 + ?u)"
      using w(3,4) mpos by (simp_all add: field_simps)
    have "pow2 (- 1021) * (1 / 2) \<le> r0 * (1 - ?u)"
      using mult_mono[OF r0(1) unit_roundoff(8)] rpos by simp
    then have lo2: "pow2 (- 1022) \<le> w / m" using wm(1) pow2_facts(1) by linarith
    have "r0 * (1 + ?u) \<le> 1 * 2"
      using 2 unit_roundoff(7) by (intro mult_mono) simp_all
    then have hi2: "w / m < pow2 1023" using wm(2) pow2_facts(3) by linarith
    obtain q where q: "roundDouble (w / m) = MFinite q" "0 < q"
        "w / m * (1 - ?u) \<le> q" "q \<le> w / m * (1 + ?u)"
      using roundDouble_near[OF lo2 hi2] by blast
    have "\<bar>q - r0\<bar> \<le> r0 * pow2 (- 51)"
      using chain_mul(3)[OF mpos rpos unit_roundoff(1,2) w(3,4) q(3,4)] unit_roundoff(3,4)
      by simp
    moreover have "jsdiv (width (getResizedDimensions img as (posnum m)))
                (height (getResizedDimensions img as (posnum m))) = posnum q"
      unfolding res using w(1) q(1) by (simp add: posnum_def)
    ultimately show ?thesis by blast
  next
    case 3
    have res: "getResizedDimensions img as (posnum m)
                 = \<lparr>width = posnum m, height = Number False (roundDouble (m / r0))\<rparr>"
      using r 3 by (simp add: getResizedDimensions_def posnum_def)
    have "m / r0 < m" using 3 mpos by (simp add: field_simps)
    then have hi1: "m / r0 < pow2 1023" using m(2) by linarith
    obtain h where h: "roundDouble (m / r0) = MFinite h" "0 < h"
        "m / r0 * (1 - ?u) \<le> h" "h \<le> m / r0 * (1 + ?u)"
      using roundDouble_near[OF side(2) hi1] by blast
    have mh: "r0 \<le> m / h * (1 + ?u)" "m / h * (1 - ?u) \<le> r0"
      using chain_div_mid[OF mpos rpos unit_roundoff(1,2) h(2,3,4)] by simp_all
    have "m / h * (1 / 2) \<le> m / h * (1 - ?u)"
      using unit_roundoff(8) mpos h(2) by (intro mult_left_mono) simp_all
    then have "m / h \<le> r0 * 2" using mh(2) by simp
    then have hi2: "m / h < pow2 1023" using r0(2) pow2_facts(2) by linarith
    have "m / h * (1 + ?u) \<le> m / h * 2"
      using unit_roundoff(7) mpos h(2) by (intro mult_left_mono) simp_all
    then have "r0 * (1 / 2) \<le> m / h" using mh(1) by simp
    then have lo2: "pow2 (- 1022) \<le> m / h" using 3 pow2_facts(4) by linarith
    obtain q where q: "roundDouble (m / h) = MFinite q" "0 < q"
        "m / h * (1 - ?u) \<le> q" "q \<le> m / h * (1 + ?u)"
      using roundDouble_near[OF lo2 hi2] by blast
    have "\<bar>q - r0\<bar> \<le> r0 * pow2 (- 51)"
      using chain_div(3)[OF mpos rpos unit_roundoff(1,2) h(2,3,4) q(3,4)] unit_roundoff(5,6)
      by simp
    moreover have "jsdiv (width (getResizedDimensions img as (posnum m)))
                (height (getResizedDimensions img as (posnum m))) = posnum q"
      unfolding res using h(1) q(1) by (simp add: posnum_def)
    ultimately show ?thesis by blast
  qed
qed

subsection \<open>Roundings of the examples\<close>

lemma rd_2000: "roundDouble 2000 = MFinite 2000"
  using roundDouble_eval[where e=10 and x=2000 and n="2000 * 2^42"]
  by (simp add: pow2_def roundEven_def)

lemma rd_1500: "roundDouble 1500 = MFinite 1500"
  using roundDouble_eval[where e=10 and x=1500 and n="1500 * 2^42"]
  by (simp add: pow2_def roundEven_def)

lemma rd_1800: "roundDouble 1800 = MFinite 1800"
  using roundDouble_eval[where e=10 and x=1800 and n="1800 * 2^42"]
  by (simp add: pow2_def roundEven_def)

lemma rd_2600: "roundDouble 2600 = MFinite 2600"
  using roundDouble_eval[where e=11 and x=2600 and n="2600 * 2^41"]
  by (simp add: pow2_def roundEven_def)

lemma rd_3000: "roundDouble 3000 = MFinite 3000"
  using roundDouble_eval[where e=11 and x=3000 and n="3000 * 2^41"]
  by (simp add: pow2_def roundEven_def)

lemma rd_1000: "roundDouble 1000 = MFinite 1000"
  using roundDouble_eval[where e=9 and x=1000 and n="1000 * 2^43"]
  by (simp add: pow2_def roundEven_def)

lemma rd_height_4_3:
  "roundDouble (2000 / (6004799503160661 / 4503599627370496)) = MFinite 1500"
  using roundDouble_eval[where e=10 and x="2000 / (6004799503160661 / 4503599627370496)"
      and n="1500 * 2^42"]
  by (simp add: pow2_def roundEven_def Let_def)

lemma rd_height_13_9:
  "roundDouble (2000 / (6505199461757383 / 4503599627370496))
     = MFinite (6089602861528615 / 4398046511104)"
  using roundDouble_eval[where e=10 and x="2000 / (6505199461757383 / 4503599627370496)"
      and n="6089602861528615"]
  by (simp add: pow2_def roundEven_def Let_def)

lemma rd_ratio_13_9:
  "roundDouble (2000 / (6089602861528615 / 4398046511104))
     = MFinite (813149932719673 / 562949953421312)"
  using roundDouble_eval[where e=0 and x="2000 / (6089602861528615 / 4398046511104)"
      and n="6505199461757384"]
  by (simp add: pow2_def roundEven_def Let_def)

lemma roundDouble_subnormal:
  assumes x: "0 < x" "x < pow2 (- 1022)"
    and n: "roundEven (x / pow2 (- 1074)) = n" "0 < n"
  shows "roundDouble x = MFinite (of_int n * pow2 (- 1074))"
proof -
  have "x < pow2 (- 1022 + 1)" using x(2) pow2_mono[of "- 1022" "- 1022 + 1"] by linarith
  then have be: "binade x = - 1022" unfolding binade_def by (rule binadeFrom_low)
  have r: "rounded x = of_int n * pow2 (- 1074)" using n(1) by (simp add: rounded_def ulp_def be)
  have split: "pow2 (- 1022) = pow2 52 * pow2 (- 1074)" using pow2_add[of 52 "- 1074"] by simp
  have "x / pow2 (- 1074) \<le> pow2 52" using x(2) by (simp add: split field_simps)
  also have "pow2 52 = of_int (2 ^ 52)" by (simp add: pow2_def)
  finally have "n \<le> 2 ^ 52" using n(1) roundEven_le_int by blast
  then have "(of_int n :: real) \<le> pow2 52" by (simp add: pow2_def)
  then have "of_int n * pow2 (- 1074) \<le> pow2 (- 1022)"
    unfolding split by (intro mult_right_mono) simp_all
  moreover have "pow2 (- 1022) < pow2 1024" by (simp add: pow2_less_iff)
  ultimately have hi: "rounded x < pow2 1024" using r by linarith
  have pos: "0 < rounded x" using n(2) r by simp
  show ?thesis using roundDouble_cases[of x] hi pos r by auto
qed

lemma tiny_small: "pow2 (- 1074) * 4 \<le> 1" "pow2 (- 1074) * 4 < pow2 (- 1022)"
proof -
  have "pow2 (- 1074) * 4 = pow2 (- 1072)" using pow2_add[of "- 1074" 2] by (simp add: pow2_def[of 2])
  moreover have "pow2 (- 1072) \<le> pow2 0" "pow2 (- 1072) < pow2 (- 1022)"
    by (simp_all add: pow2_le_iff pow2_less_iff)
  ultimately show "pow2 (- 1074) * 4 \<le> 1" "pow2 (- 1074) * 4 < pow2 (- 1022)"
    by (simp_all add: pow2_def[of 0])
qed

lemma rd_tiny_3: "roundDouble (3 * pow2 (- 1074)) = MFinite (3 * pow2 (- 1074))"
  using roundDouble_subnormal[of "3 * pow2 (- 1074)" 3] tiny_small pow2_pos[of "- 1074"]
  by (simp add: roundEven_def)

lemma rd_tiny_3_2: "roundDouble (3 / 2 * pow2 (- 1074)) = MFinite (2 * pow2 (- 1074))"
  using roundDouble_subnormal[of "3 / 2 * pow2 (- 1074)" 2] tiny_small pow2_pos[of "- 1074"]
  by (simp add: roundEven_def)

lemma rd_tiny_4: "roundDouble (4 * pow2 (- 1074)) = MFinite (4 * pow2 (- 1074))"
  using roundDouble_subnormal[of "4 * pow2 (- 1074)" 4] tiny_small pow2_pos[of "- 1074"]
  by (simp add: roundEven_def)

subsection \<open>Upload dimensions\<close>

lemma resized_NaN:
  assumes "ratioMultipliers img (as_or_default as) = NaN"
  shows "getResizedDimensions img as maxSide = \<lparr>width = maxSide, height = NaN\<rparr>"
  using assms by (cases maxSide) (simp_all add: getResizedDimensions_def)

lemma getUploadDimensions_cases:
  "getUploadDimensions POST_IMG_MAX img d maxDimensions as =
     (if jslt (width d) (width (case maxDimensions of None \<Rightarrow> POST_IMG_MAX | Some m \<Rightarrow> m))
        \<and> jslt (height d) (height (case maxDimensions of None \<Rightarrow> POST_IMG_MAX | Some m \<Rightarrow> m))
      then d else getResizedDimensions img as (width POST_IMG_MAX))"
  by (simp add: getUploadDimensions_def Let_def)

subsection \<open>The example images\<close>

lemmas image_defs = imageOf_def ownDimensions_def max2000_def

lemma isDouble_2000: "isDouble (posnum 2000)"
  by (simp add: isDouble_def posnum_def rd_2000)

lemma wide_upload:
  "getUploadDimensions max2000 wideImage (ownDimensions wideImage) None (Some Ratio_4_3)
     = \<lparr>width = posnum 2000, height = posnum 1500\<rparr>"
  using rd_height_4_3
  by (simp add: getUploadDimensions_cases image_defs wideImage_def getResizedDimensions_def
      as_or_default_def ratio_4_3 posnum_def)

lemma wide_height: "jsdiv (posnum 2000) (ratioMultipliers wideImage Ratio_4_3) = posnum 1500"
  using rd_height_4_3 by (simp add: ratio_4_3 posnum_def)

lemma small_upload_cond:
  "jslt (width (ownDimensions smallImage)) (width max2000)
   \<and> jslt (height (ownDimensions smallImage)) (height max2000)"
  by (simp add: image_defs smallImage_def posnum_def)

lemma photo_multiplier:
  "ratioMultipliers photo Ratio_None = posnum (6505199461757383 / 4503599627370496)"
  using rd_13_9 by (simp add: ratioMultipliers_def photo_def imageOf_def posnum_def)

lemma photo_upload:
  "getUploadDimensions max2000 photo (ownDimensions photo) None None
     = \<lparr>width = posnum 2000, height = posnum (6089602861528615 / 4398046511104)\<rparr>"
  using rd_height_13_9
  by (simp add: getUploadDimensions_cases getResizedDimensions_def as_or_default_def
      photo_multiplier) (simp add: image_defs photo_def posnum_def)

lemma photo_ratio:
  "ratioOf (getUploadDimensions max2000 photo (ownDimensions photo) None None)
     = posnum (813149932719673 / 562949953421312)"
  using rd_ratio_13_9 by (simp add: photo_upload ratioOf_def posnum_def)

lemma photo_normalRange: "normalRange 2000 (6505199461757383 / 4503599627370496)"
proof -
  have a: "pow2 11 < pow2 1023" "pow2 (- 1021) \<le> pow2 0" "pow2 1 < pow2 1022"
    "pow2 (- 1022) \<le> pow2 0"
    by (simp_all add: pow2_less_iff pow2_le_iff)
  have b: "pow2 11 = 2048" "pow2 0 = 1" "pow2 1 = 2" by (simp_all add: pow2_def)
  show ?thesis unfolding normalRange_def using a unfolding b by simp
qed

lemma flat_upload:
  "getUploadDimensions max2000 flatImage (ownDimensions flatImage) None None
     = \<lparr>width = posnum 2000, height = Number False MZero\<rparr>"
  by (simp add: getUploadDimensions_cases image_defs flatImage_def getResizedDimensions_def
      as_or_default_def ratioMultipliers_def posnum_def)

lemma empty_upload:
  "getUploadDimensions max2000 emptyImage max2000 None None
     = \<lparr>width = posnum 2000, height = NaN\<rparr>"
  by (simp add: getUploadDimensions_cases image_defs emptyImage_def getResizedDimensions_def
      as_or_default_def ratioMultipliers_def posnum_def)

lemma tiny_multiplier: "ratioMultipliers tinyImage Ratio_None = posnum (3 * pow2 (- 1074))"
  using rd_tiny_3 by (simp add: ratioMultipliers_def tinyImage_def imageOf_def posnum_def)

lemma tiny_upload:
  "getUploadDimensions maxHalf tinyImage (ownDimensions tinyImage) None None
     = \<lparr>width = posnum (2 * pow2 (- 1074)), height = posnum (1 / 2)\<rparr>"
proof -
  have "3 * pow2 (- 1074) < 1" using tiny_small(1) pow2_pos[of "- 1074"] by linarith
  then show ?thesis
    using rd_tiny_3_2
    by (simp add: getUploadDimensions_cases getResizedDimensions_def as_or_default_def
      tiny_multiplier) (simp add: image_defs tinyImage_def maxHalf_def posnum_def)
qed

lemma tiny_ratio:
  "ratioOf (getUploadDimensions maxHalf tinyImage (ownDimensions tinyImage) None None)
     = posnum (4 * pow2 (- 1074))"
  using rd_tiny_4 by (simp add: tiny_upload ratioOf_def posnum_def)

lemma tiny_error:
  "\<not> \<bar>4 * pow2 (- 1074) - 3 * pow2 (- 1074)\<bar> \<le> 3 * pow2 (- 1074) * pow2 (- 51)"
proof -
  have "3 * pow2 (- 51) < 1" by (simp add: pow2_def)
  then have "3 * pow2 (- 51) * pow2 (- 1074) < 1 * pow2 (- 1074)"
    by (intro mult_strict_right_mono) simp_all
  then show ?thesis by (simp add: mult_ac)
qed

lemma rd_huge_width: "roundDouble (9007199254740990 * (3 / 4)) = MFinite 6755399441055742"
  using roundDouble_eval[where e=52 and x="9007199254740990 * (3 / 4)" and n="6755399441055742"]
  by (simp add: pow2_def roundEven_def Let_def)

lemma rd_huge_ratio:
  "roundDouble (6755399441055742 / 9007199254740990)
     = MFinite (6755399441055743 / 9007199254740992)"
  using roundDouble_eval[where e="- 1" and x="6755399441055742 / 9007199254740990"
      and n="6755399441055743"]
  by (simp add: pow2_def roundEven_def Let_def)

lemma huge_upload:
  "getUploadDimensions maxHuge wideImage (ownDimensions wideImage) (Some max2000)
     (Some Ratio_3_4) = \<lparr>width = posnum 6755399441055742, height = posnum 9007199254740990\<rparr>"
  using rd_huge_width
  by (simp add: getUploadDimensions_cases getResizedDimensions_def as_or_default_def
      ratio_3_4) (simp add: image_defs wideImage_def maxHuge_def posnum_def)

lemma huge_ratio:
  "ratioOf (getUploadDimensions maxHuge wideImage (ownDimensions wideImage) (Some max2000)
     (Some Ratio_3_4)) = posnum (6755399441055743 / 9007199254740992)"
  using rd_huge_ratio by (simp add: huge_upload ratioOf_def posnum_def)

lemma huge_differs:
  "\<not> jseq (ratioOf (getUploadDimensions maxHuge wideImage (ownDimensions wideImage)
      (Some max2000) (Some Ratio_3_4))) (ratioMultipliers wideImage Ratio_3_4)"
  by (simp add: huge_ratio ratio_3_4 posnum_def)

lemma last_of_ten:
  "A1 \<and> A2 \<and> A3 \<and> A4 \<and> A5 \<and> A6 \<and> A7 \<and> A8 \<and> A9 \<and> B \<Longrightarrow> B"
  by blast

lemma isDouble_sides:
  "isDouble (posnum 3000)" "isDouble (posnum 1000)" "isDouble (Number s MZero)"
  by (simp_all add: isDouble_def posnum_def rd_3000 rd_1000)

lemma wide_not_below:
  "\<not> (jslt (width (ownDimensions wideImage)) (width max2000)
       \<and> jslt (height (ownDimensions wideImage)) (height max2000))"
  by (simp add: image_defs wideImage_def posnum_def)

lemma wide_resized:
  "getResizedDimensions wideImage (Some Ratio_4_3) (posnum 2000)
     = \<lparr>width = posnum 2000, height = posnum 1500\<rparr>"
  "getResizedDimensions wideImage (Some Ratio_3_4) (posnum 2000)
     = \<lparr>width = posnum 1500, height = posnum 2000\<rparr>"
  "getResizedDimensions wideImage (Some Ratio_1_1) (posnum 2000)
     = \<lparr>width = posnum 2000, height = posnum 2000\<rparr>"
  using rd_height_4_3 rd_1500
  by (simp_all add: getResizedDimensions_def as_or_default_def ratio_4_3 ratio_3_4
      ratioMultipliers_def[of _ Ratio_1_1] posnum_def)

lemma wide_width_3_4:
  "jsmul (posnum 2000) (ratioMultipliers wideImage Ratio_3_4) = posnum (2000 * (3 / 4))"
  using rd_1500 by (simp add: ratio_3_4 posnum_def)

lemma wide_height_4_3:
  "jsdiv (posnum 2000) (ratioMultipliers wideImage Ratio_4_3) = posnum (2000 * (3 / 4))"
  using rd_height_4_3 by (simp add: ratio_4_3 posnum_def)

lemma empty_multiplier: "ratioMultipliers emptyImage Ratio_None = NaN"
  by (simp add: ratioMultipliers_def emptyImage_def imageOf_def)

lemma flat_multiplier: "ratioMultipliers flatImage Ratio_None = Number False MInfinity"
  by (simp add: ratioMultipliers_def flatImage_def imageOf_def posnum_def)

lemma flat_not_below:
  "\<not> (jslt (width (ownDimensions flatImage)) (width max2000)
       \<and> jslt (height (ownDimensions flatImage)) (height max2000))"
  by (simp add: image_defs flatImage_def posnum_def)

lemma photo_not_below:
  "\<not> (jslt (width (ownDimensions photo)) (width max2000)
       \<and> jslt (height (ownDimensions photo)) (height max2000))"
  by (simp add: image_defs photo_def posnum_def)

lemma rd_large_height:
  "roundDouble (7000000000000003 / (6004799503160661 / 4503599627370496))
     = MFinite 5250000000000003"
  using roundDouble_eval[where e=52 and x="7000000000000003 / (6004799503160661 / 4503599627370496)"
      and n="5250000000000003"]
  by (simp add: pow2_def roundEven_def Let_def)

lemma rd_large_ratio:
  "roundDouble (7000000000000003 / 5250000000000003)
     = MFinite (1501199875790165 / 1125899906842624)"
  using roundDouble_eval[where e=0 and x="7000000000000003 / 5250000000000003"
      and n="6004799503160660"]
  by (simp add: pow2_def roundEven_def Let_def)

lemma large_upload:
  "getUploadDimensions maxLarge wideImage (ownDimensions wideImage) (Some max2000)
     (Some Ratio_4_3) = \<lparr>width = posnum 7000000000000003, height = posnum 5250000000000003\<rparr>"
  using rd_large_height
  by (simp add: getUploadDimensions_cases getResizedDimensions_def as_or_default_def
      ratio_4_3) (simp add: image_defs wideImage_def maxLarge_def posnum_def)

lemma large_ratio:
  "ratioOf (getUploadDimensions maxLarge wideImage (ownDimensions wideImage) (Some max2000)
     (Some Ratio_4_3)) = posnum (1501199875790165 / 1125899906842624)"
  using rd_large_ratio by (simp add: large_upload ratioOf_def posnum_def)

lemma large_differs:
  "\<not> jseq (ratioOf (getUploadDimensions maxLarge wideImage (ownDimensions wideImage)
      (Some max2000) (Some Ratio_4_3))) (ratioMultipliers wideImage Ratio_4_3)"
  by (simp add: large_ratio ratio_4_3 posnum_def)

lemma rd_examples:
  "roundDouble 800 = MFinite 800" "roundDouble 600 = MFinite 600"
  "roundDouble (1 / 2) = MFinite (1 / 2)"
  "roundDouble 9007199254740990 = MFinite 9007199254740990"
  "roundDouble 7000000000000003 = MFinite 7000000000000003"
  using roundDouble_eval[where e=9 and x=800 and n="800 * 2^43"]
    roundDouble_eval[where e=9 and x=600 and n="600 * 2^43"]
    roundDouble_eval[where e="- 1" and x="1 / 2" and n="2^52"]
    roundDouble_eval[where e=52 and x=9007199254740990 and n=9007199254740990]
    roundDouble_eval[where e=52 and x=7000000000000003 and n=7000000000000003]
  by (simp_all add: pow2_def roundEven_def)

lemma example_doubles:
  "isDouble (width max2000)" "isDouble (height max2000)"
  "isDouble (width maxHalf)" "isDouble (height maxHalf)"
  "isDouble (width maxHuge)" "isDouble (height maxHuge)"
  "isDouble (width maxLarge)" "isDouble (height maxLarge)"
  "isDouble (image_width wideImage)" "isDouble (image_height wideImage)"
  "isDouble (image_width smallImage)" "isDouble (image_height smallImage)"
  "isDouble (image_width photo)" "isDouble (image_height photo)"
  "isDouble (image_width flatImage)" "isDouble (image_height flatImage)"
  "isDouble (image_width emptyImage)" "isDouble (image_height emptyImage)"
  "isDouble (image_width tinyImage)" "isDouble (image_height tinyImage)"
  using pow2_pos[of "- 1074"]
  by (simp_all add: isDouble_def posnum_def imageOf_def max2000_def maxHalf_def maxHuge_def
      maxLarge_def wideImage_def smallImage_def photo_def flatImage_def emptyImage_def
      tinyImage_def rd_2000 rd_3000 rd_1000 rd_2600 rd_1800 rd_1 rd_tiny_3 rd_examples)

section \<open>The claims\<close>

text \<open>
  C1. Starting from persisted accounts with distinct \<open>did\<close>s, after every sequence of
  operations (createAccount, login, logout, clearCurrentAccount, initSession,
  resumeSession, removeAccount, selectAccount, updateCurrentAccount, a call of a
  persist-session handler, an external persistence update) the roster holds at most one
  entry per \<open>did\<close>, the current account, when set, is the most recently activated one, and
  the most recently activated account is at the head of the roster as long as, since its
  activation, \<open>removeAccount\<close> has not been called for its \<open>did\<close> and no persist-session
  handler has upserted an account with another \<open>did\<close> as expired.
\<close>

theorem roster_invariant:
  assumes "distinct (map did persistedAccounts)"
    and "w = run tr (initialWorld persistedAccounts)"
  shows "uniqueDids (state w)
       \<and> (\<forall>c. currentAccount (state w) = Some c
              \<longrightarrow> lastActivated (setStateCalls w) = Some (did c))
       \<and> (headUndisturbed (setStateCalls w) \<longrightarrow> mostRecentlyActivatedAtHead w)"
proof -
  have "rosterInvariant w"
    using assms initial_rosterInvariant run_rosterInvariant by simp
  then show ?thesis by (simp add: rosterInvariant_def split: option.splits)
qed

theorem roster_invariant_witness:
  "distinct (map did [bob])
   \<and> uniqueDids (state (run [(aliceBackend, OpLogin aliceLogin), (bobBackend, OpSelectAccount bob),
        (aliceBackend, OpRemoveAccount alice)] (initialWorld [bob])))
   \<and> lastActivated (setStateCalls (run [(aliceBackend, OpLogin aliceLogin),
        (bobBackend, OpSelectAccount bob), (aliceBackend, OpRemoveAccount alice)]
        (initialWorld [bob]))) = Some ''did:2''
   \<and> headUndisturbed (setStateCalls (run [(aliceBackend, OpLogin aliceLogin),
        (bobBackend, OpSelectAccount bob), (aliceBackend, OpRemoveAccount alice)]
        (initialWorld [bob])))
   \<and> mostRecentlyActivatedAtHead (run [(aliceBackend, OpLogin aliceLogin),
        (bobBackend, OpSelectAccount bob), (aliceBackend, OpRemoveAccount alice)]
        (initialWorld [bob]))
   \<and> accounts (state (run [(aliceBackend, OpLogin aliceLogin), (bobBackend, OpSelectAccount bob),
        (aliceBackend, OpRemoveAccount alice)] (initialWorld [bob]))) = [bobFresh]"
proof -
  let ?W = "run [(aliceBackend, OpLogin aliceLogin), (bobBackend, OpSelectAccount bob),
        (aliceBackend, OpRemoveAccount alice)] (initialWorld [bob])"
  have d: "distinct (map did [bob])" by simp
  have cur: "currentAccount (state ?W) = Some bobFresh"
    and acc: "accounts (state ?W) = [bobFresh]"
    unfolding switched_trace by simp_all
  have und: "headUndisturbed (setStateCalls ?W)"
    unfolding switched_trace
    by (simp add: headUndisturbed_def alice_def bobFresh_def)
  have did2: "did bobFresh = ''did:2''" by (simp add: bobFresh_def)
  show ?thesis
    using roster_invariant [OF d refl, of
        "[(aliceBackend, OpLogin aliceLogin), (bobBackend, OpSelectAccount bob),
          (aliceBackend, OpRemoveAccount alice)]"] cur acc und did2
    by (simp del: run.simps)
qed

text \<open>
  C1, as stated, fails in two ways. \<open>alice\<close> logs in and is then removed: the roster is
  empty, so the most recently activated account is not at its head. And with \<open>alice\<close>
  active, a switch to \<open>bob\<close> that the client rejects after reporting \<open>create-failed\<close>
  leaves \<open>bob\<close>, never activated, at the head.
\<close>

theorem roster_head_counterexample:
  "\<not> (uniqueDids (state (run [(aliceBackend, OpLogin aliceLogin),
                                (aliceBackend, OpRemoveAccount alice)] (initialWorld [])))
      \<and> mostRecentlyActivatedAtHead
           (run [(aliceBackend, OpLogin aliceLogin), (aliceBackend, OpRemoveAccount alice)]
              (initialWorld [])))
   \<and> \<not> mostRecentlyActivatedAtHead (snd (selectAccount droppingBackend bob aliceActive))"
proof -
  have a: "\<not> mostRecentlyActivatedAtHead
           (run [(aliceBackend, OpLogin aliceLogin), (aliceBackend, OpRemoveAccount alice)]
              (initialWorld []))"
    by (simp add: mostRecentlyActivatedAtHead_def removed_trace_state removed_trace_calls
      lastActivated_def del: run.simps)
  have b: "\<not> mostRecentlyActivatedAtHead (snd (selectAccount droppingBackend bob aliceActive))"
    unfolding dropped_switch
    by (simp add: mostRecentlyActivatedAtHead_def lastActivated_def alice_def bob_def)
  show ?thesis using a b by blast
qed

text \<open>
  C2. If the current account, when set, has an entry with its \<open>did\<close> in the roster, then
  this still holds after every sequence of operations in which \<open>removeAccount\<close> is never
  called for the \<open>did\<close> of the account that is current at that moment. In particular
  \<open>removeAccount\<close> keeps the invariant when it removes another account than the current.
\<close>

theorem currentAccount_in_roster:
  assumes "currentInRoster (state w)" and "neverRemovesCurrent tr w"
  shows "currentInRoster (state (run tr w))"
  using assms by (rule run_currentInRoster)

theorem currentAccount_in_roster_witness:
  "currentInRoster (state (initialWorld [bob]))
   \<and> neverRemovesCurrent [(aliceBackend, OpLogin aliceLogin), (aliceBackend, OpRemoveAccount bob)]
        (initialWorld [bob])
   \<and> currentInRoster
        (state (run [(aliceBackend, OpLogin aliceLogin), (aliceBackend, OpRemoveAccount bob)]
                  (initialWorld [bob])))"
proof -
  have a: "currentInRoster (state (initialWorld [bob]))"
    by (simp add: currentInRoster_def initialWorld_def initialState_def)
  have b: "neverRemovesCurrent
             [(aliceBackend, OpLogin aliceLogin), (aliceBackend, OpRemoveAccount bob)]
             (initialWorld [bob])"
    by (simp add: state_login_alice alice_def bob_def)
  show ?thesis using a b currentAccount_in_roster [OF a b] by simp
qed

text \<open>
  C2, as stated, fails for \<open>removeAccount\<close> of the current account: \<open>alice\<close> logs in
  and is removed; she stays the current account and the roster has no entry for her.
\<close>

theorem currentAccount_in_roster_counterexample:
  "\<not> currentInRoster
       (state (run [(aliceBackend, OpLogin aliceLogin), (aliceBackend, OpRemoveAccount alice)]
                 (initialWorld [bob])))"
  unfolding removed_trace_state by (simp add: currentInRoster_def alice_def bob_def)

text \<open>
  C3. The persist-session handler forwards to its callback the expiry flag and the
  reconciled account. The reconciled account's \<open>accessJwt\<close> and \<open>refreshJwt\<close> are the
  session's tokens when the client passes a session and are absent when it passes none:
  the tokens do not fall back to the prior account's. The fall back to the prior
  account's values is for \<open>did\<close>, \<open>handle\<close>, \<open>email\<close> and \<open>emailConfirmed\<close>.
\<close>

theorem persistSession_tokens:
  "createPersistSessionHandler account cb event session w =
     cb (persistSession_expired event) (persistSession_refreshedAccount account session)
        (if persistSession_expired event then emitSessionDropped w else w)
   \<and> accessJwt (persistSession_refreshedAccount account session)
        = (case session of None \<Rightarrow> None | Some s \<Rightarrow> Some (session_accessJwt s))
   \<and> refreshJwt (persistSession_refreshedAccount account session)
        = (case session of None \<Rightarrow> None | Some s \<Rightarrow> Some (session_refreshJwt s))
   \<and> did (persistSession_refreshedAccount account None) = did account
   \<and> handle (persistSession_refreshedAccount account None) = handle account
   \<and> email (persistSession_refreshedAccount account None) = email account
   \<and> emailConfirmed (persistSession_refreshedAccount account None) = emailConfirmed account"
  by (simp add: createPersistSessionHandler_def persistSession_refreshedAccount_def Let_def
      or_string_def or_string_opt_def or_bool_opt_def split: option.splits)

theorem persistSession_tokens_witness:
  "accessJwt (persistSession_refreshedAccount alice (Some bobSession)) = Some ''a2n''
   \<and> refreshJwt (persistSession_refreshedAccount alice (Some bobSession)) = Some ''r2n''
   \<and> accessJwt (persistSession_refreshedAccount alice None) = None
   \<and> handle (persistSession_refreshedAccount alice None) = ''alice''"
  using persistSession_tokens [of alice "\<lambda>e r w. w" "''update''" "Some bobSession" aliceActive]
    persistSession_tokens [of alice "\<lambda>e r w. w" "''expired''" None aliceActive]
  by (simp add: bobSession_def alice_def)

text \<open>
  C3, as stated, fails where the client passes no session: the reconciled account of
  \<open>alice\<close> has no tokens, while \<open>alice\<close> had both.
\<close>

theorem persistSession_tokens_counterexample:
  "\<not> (accessJwt (persistSession_refreshedAccount alice None) = accessJwt alice
      \<and> refreshJwt (persistSession_refreshedAccount alice None) = refreshJwt alice)"
  by (simp add: persistSession_refreshedAccount_def alice_def)

text \<open>
  C4. The expiry flag of the persist-session handler is true exactly when the event is
  neither \<open>create\<close> nor \<open>update\<close>. On an expired event the upsert unsets the current
  account, the reconciled account (its handle and email taken from the session, else from
  the prior account) is at the head of the roster, and exactly one session-dropped event
  is emitted; on another event none is.
\<close>

theorem persistSession_expiry:
  "persistSession_expired event = (event \<noteq> ''create'' \<and> event \<noteq> ''update'')
   \<and> (persistSession_expired event \<longrightarrow>
        currentAccount (state (persistHandler account event session w)) = None
        \<and> accounts (state (persistHandler account event session w))
            = persistSession_refreshedAccount account session
              # filter (\<lambda>a. did a \<noteq> did (persistSession_refreshedAccount account session))
                  (accounts (state w))
        \<and> handle (persistSession_refreshedAccount account session)
            = or_string (map_option session_handle session) (handle account)
        \<and> email (persistSession_refreshedAccount account session)
            = or_string_opt (Option.bind session session_email) (email account)
        \<and> emitted (persistHandler account event session w) = emitted w @ [SessionDropped])
   \<and> (\<not> persistSession_expired event \<longrightarrow>
        emitted (persistHandler account event session w) = emitted w)"
  by (simp add: persistHandler_def createPersistSessionHandler_def persistSession_expired_def
      upsertAccount_def setStateAndPersist_def setState_def emitSessionDropped_def Let_def
      persistSession_refreshedAccount_def)

theorem persistSession_expiry_witness:
  "persistSession_expired ''expired''
   \<and> currentAccount (state (persistHandler alice ''expired'' None aliceActive)) = None
   \<and> accounts (state (persistHandler alice ''expired'' None aliceActive))
       = [alice\<lparr>refreshJwt := None, accessJwt := None\<rparr>, bob]
   \<and> emitted (persistHandler alice ''expired'' None aliceActive)
       = [SessionLoaded alice, SessionDropped]
   \<and> \<not> persistSession_expired ''update''
   \<and> emitted (persistHandler alice ''update'' (Some aliceSession) aliceActive)
       = [SessionLoaded alice]"
  using persistSession_expiry [of "''expired''" alice None aliceActive]
    persistSession_expiry [of "''update''" alice "Some aliceSession" aliceActive]
  by (simp add: persistSession_refreshedAccount_def or_string_def or_string_opt_def
      or_bool_opt_def aliceActive_world alice_def bob_def persistSession_expired_def)

text \<open>
  C5. \<open>clearCurrentAccount\<close> leaves the accounts list, and so every stored token, as it
  was; it unsets the current account and makes the public agent the active one.
  \<open>logout\<close> resolves, unsets the current account, keeps the roster's accounts by
  \<open>did\<close> and leaves every account of the roster without \<open>accessJwt\<close> and \<open>refreshJwt\<close>.
\<close>

theorem clearCurrentAccount_logout_frame:
  "accounts (state (clearCurrentAccount w)) = accounts (state w)
   \<and> currentAccount (state (clearCurrentAccount w)) = None
   \<and> globalAgent (clearCurrentAccount w) = PUBLIC_BSKY_AGENT
   \<and> isInitialLoad (state (clearCurrentAccount w)) = isInitialLoad (state w)
   \<and> isSwitchingAccounts (state (clearCurrentAccount w)) = isSwitchingAccounts (state w)
   \<and> fst (logout w) = Inr ()
   \<and> currentAccount (state (snd (logout w))) = None
   \<and> map did (accounts (state (snd (logout w)))) = map did (accounts (state w))
   \<and> (\<forall>a \<in> set (accounts (state (snd (logout w)))). accessJwt a = None \<and> refreshJwt a = None)"
  by (auto simp: clearCurrentAccount_def logout_def setStateAndPersist_def setState_def
      queryClient_clear_def Let_def)

theorem clearCurrentAccount_logout_frame_witness:
  "accounts (state (clearCurrentAccount aliceActive)) = [alice, bob]
   \<and> currentAccount (state (clearCurrentAccount aliceActive)) = None
   \<and> currentAccount (state (snd (logout aliceActive))) = None
   \<and> accounts (state (snd (logout aliceActive)))
       = [alice\<lparr>refreshJwt := None, accessJwt := None\<rparr>,
          bob\<lparr>refreshJwt := None, accessJwt := None\<rparr>]
   \<and> map accessJwt (accounts (state (snd (logout aliceActive)))) = [None, None]
   \<and> map refreshJwt (accounts (state (snd (logout aliceActive)))) = [None, None]"
proof -
  have acc: "accounts (state (snd (logout aliceActive)))
       = [alice\<lparr>refreshJwt := None, accessJwt := None\<rparr>,
          bob\<lparr>refreshJwt := None, accessJwt := None\<rparr>]"
    by (simp add: clearCurrentAccount_def logout_def setStateAndPersist_def setState_def
      queryClient_clear_def Let_def aliceActive_world)
  have base: "accounts (state aliceActive) = [alice, bob]"
    by (simp add: aliceActive_world)
  show ?thesis
    using clearCurrentAccount_logout_frame [of aliceActive] acc base by simp
qed

text \<open>
  C6. \<open>selectAccount\<close> ends with \<open>isSwitchingAccounts\<close> false. When the resume attempts end
  with a session, it resolves, the current account is the account rebuilt from that
  session and heads the roster, the new agent is the active one, and the current account
  has the \<open>did\<close> of the requested account whenever the session has it. When they end
  without a session or with a failure, it rejects with the establishment error or with
  that failure, and the active agent is the one from before. On rejection the world is the
  one before the call with every event the client delivered during the resume attempts
  handled in order: with no event, the current account and the roster are those from
  before the call; otherwise the last event decides, the current account being unset if
  that event is an expiry and the reconciled account if not, with the reconciled account
  at the head of the roster.
\<close>

theorem selectAccount_outcome:
  assumes w0: "w0 = setState (SetIsSwitchingAccounts True) w"
    and resumed: "resumed = networkRetry 3 (agent_resumeSession b account (resumeArgs account)) 0 w0"
    and events: "events = deliveredEvents b account"
    and result: "result = fst (selectAccount b account w)"
    and w': "w' = snd (selectAccount b account w)"
  shows "isSwitchingAccounts (state w') = False
     \<and> (case fst resumed of
          Inr (Some session) \<Rightarrow>
            result = Inr ()
            \<and> currentAccount (state w') = Some (freshAccountOf b account session)
            \<and> take 1 (accounts (state w')) = [freshAccountOf b account session]
            \<and> globalAgent w' = BskyAgent (service account) (Some session) account
            \<and> (session_did session = did account
                 \<longrightarrow> map_option did (currentAccount (state w')) = Some (did account))
        | Inr None \<Rightarrow>
            result = Inl (EstablishmentError ''session: initSession failed to establish a session'')
        | Inl e \<Rightarrow> result = Inl (ClientFailure e))
     \<and> (result \<noteq> Inr () \<longrightarrow>
          globalAgent w' = globalAgent w
          \<and> w' = setState (SetIsSwitchingAccounts False)
                   (fold (\<lambda>(event, session). persistHandler account event session) events w0)
          \<and> (events = [] \<longrightarrow>
                currentAccount (state w') = currentAccount (state w)
                \<and> accounts (state w') = accounts (state w))
          \<and> (\<forall>rest event session. events = rest @ [(event, session)] \<longrightarrow>
                currentAccount (state w')
                  = (if persistSession_expired event then None
                     else Some (persistSession_refreshedAccount account session))
                \<and> take 1 (accounts (state w'))
                  = [persistSession_refreshedAccount account session]))"
  (is "?A \<and> ?B \<and> (result \<noteq> Inr () \<longrightarrow> ?C)")
proof -
  let ?h = "\<lambda>(event, session). persistHandler account event session"
  obtain r w1 where res: "resumed = (r, w1)" by (cases resumed)
  have res': "networkRetry 3 (agent_resumeSession b account (resumeArgs account)) 0
                (setState (SetIsSwitchingAccounts True) w) = (r, w1)"
    using res resumed w0 by simp
  have ag: "globalAgent w1 = globalAgent w"
    using resume_retry_agent[of 3 b account "resumeArgs account" 0 w0] res resumed w0
    by (simp add: setState_def)
  have w1: "w1 = fold ?h events w0"
    using resume_retry_events[of 3 b account "resumeArgs account" 0 w0] res resumed events
    by (simp add: deliveredEvents_def)
  have frame: "globalAgent v' = globalAgent w
          \<and> v' = setState (SetIsSwitchingAccounts False) (fold ?h events w0)
          \<and> (events = [] \<longrightarrow>
                currentAccount (state v') = currentAccount (state w)
                \<and> accounts (state v') = accounts (state w))
          \<and> (\<forall>rest event session. events = rest @ [(event, session)] \<longrightarrow>
                currentAccount (state v')
                  = (if persistSession_expired event then None
                     else Some (persistSession_refreshedAccount account session))
                \<and> take 1 (accounts (state v'))
                  = [persistSession_refreshedAccount account session])"
    if v': "v' = setState (SetIsSwitchingAccounts False) w1" for v'
  proof -
    have a: "globalAgent v' = globalAgent w" using v' ag by (simp add: setState_def)
    have b: "v' = setState (SetIsSwitchingAccounts False) (fold ?h events w0)"
      using v' w1 by simp
    have c: "currentAccount (state v') = currentAccount (state w)
                \<and> accounts (state v') = accounts (state w)" if "events = []"
      using b that w0 by (simp add: setState_def)
    have d: "currentAccount (state v')
                  = (if persistSession_expired event then None
                     else Some (persistSession_refreshedAccount account session))
                \<and> take 1 (accounts (state v'))
                  = [persistSession_refreshedAccount account session]"
      if "events = rest @ [(event, session)]" for rest event session
    proof -
      have "state v' = apply_updater (SetIsSwitchingAccounts False)
              (apply_updater
                (UpsertAccount (persistSession_refreshedAccount account session)
                   (persistSession_expired event))
                (state (fold ?h rest w0)))"
        using b that events_last_state[of account rest event session w0]
        by (simp add: state_proj del: apply_updater.simps fold_append)
      then show ?thesis by simp
    qed
    show ?thesis using a b c d by blast
  qed
  show ?thesis
  proof (cases r)
    case (Inl e)
    have sel: "selectAccount b account w
        = (Inl (ClientFailure e), setState (SetIsSwitchingAccounts False) w1)"
      using initSession_failure[of b account _ e w1] res' Inl
      by (simp add: selectAccount_def Let_def)
    then have wv: "w' = setState (SetIsSwitchingAccounts False) w1" using w' by simp
    have "?A" using wv by (simp add: setState_def)
    moreover have "?B" using sel res Inl result by simp
    moreover have "?C" using frame[OF wv] .
    ultimately show ?thesis by blast
  next
    case (Inr s)
    show ?thesis
    proof (cases s)
      case None
      have sel: "selectAccount b account w =
          (Inl (EstablishmentError ''session: initSession failed to establish a session''),
           setState (SetIsSwitchingAccounts False) w1)"
        using initSession_no_session[of b account _ w1] res' Inr None
        by (simp add: selectAccount_def Let_def)
      then have wv: "w' = setState (SetIsSwitchingAccounts False) w1" using w' by simp
      have "?A" using wv by (simp add: setState_def)
      moreover have "?B" using sel res Inr None result by simp
      moreover have "?C" using frame[OF wv] .
      ultimately show ?thesis by blast
    next
      case (Some session)
      have sel: "selectAccount b account w =
          (Inr (), setState (SetIsSwitchingAccounts False)
             (emitSessionLoaded (freshAccountOf b account session)
               (upsertAccount (freshAccountOf b account session) False
                 (queryClient_clear
                   (w1\<lparr>globalAgent := BskyAgent (service account) (Some session) account\<rparr>)))))"
        using initSession_success[of b account _ session w1] res' Inr Some
        by (simp add: selectAccount_def Let_def)
      have "?A" using sel w' by (simp add: world_defs)
      moreover have "?B" using sel res Inr Some result w'
        by (simp add: world_defs freshAccountOf_def)
      moreover have "result = Inr ()" using sel result by simp
      ultimately show ?thesis by blast
    qed
  qed
qed

theorem selectAccount_outcome_witness:
  "fst (selectAccount bobBackend bob aliceActive) = Inr ()
   \<and> session_did bobSession = did bob
   \<and> currentAccount (state (snd (selectAccount bobBackend bob aliceActive))) = Some bobFresh
   \<and> did bobFresh = did bob
   \<and> isSwitchingAccounts (state (snd (selectAccount bobBackend bob aliceActive))) = False
   \<and> fst (selectAccount droppingBackend bob aliceActive)
       = Inl (ClientFailure (RequestError ''invalid''))
   \<and> deliveredEvents droppingBackend bob = [(''create-failed'', None)]
   \<and> currentAccount (state (snd (selectAccount droppingBackend bob aliceActive))) = None
   \<and> take 1 (accounts (state (snd (selectAccount droppingBackend bob aliceActive))))
       = [bob\<lparr>refreshJwt := None, accessJwt := None\<rparr>]
   \<and> fst (selectAccount offlineBackend bob aliceActive) = Inl (ClientFailure NetworkError)
   \<and> deliveredEvents offlineBackend bob = []
   \<and> currentAccount (state (snd (selectAccount offlineBackend bob aliceActive))) = Some alice
   \<and> accounts (state (snd (selectAccount offlineBackend bob aliceActive))) = [alice, bob]"
proof -
  have ok: "fst (networkRetry 3 (agent_resumeSession bobBackend bob (resumeArgs bob)) 0
              (setState (SetIsSwitchingAccounts True) aliceActive)) = Inr (Some bobSession)"
    by (simp add: bob_resume)
  have dr: "fst (networkRetry 3 (agent_resumeSession droppingBackend bob (resumeArgs bob)) 0
              (setState (SetIsSwitchingAccounts True) aliceActive))
            = Inl (RequestError ''invalid'')"
    by (simp add: networkRetry.simps agent_resumeSession_def droppingBackend_def
        scriptedBackend_def isNetworkError_def numeral_3_eq_3)
  have off: "fst (networkRetry 3 (agent_resumeSession offlineBackend bob (resumeArgs bob)) 0
              (setState (SetIsSwitchingAccounts True) aliceActive)) = Inl NetworkError"
    by (simp add: networkRetry.simps agent_resumeSession_def offlineBackend_def
        scriptedBackend_def isNetworkError_def numeral_3_eq_3)
  have base: "currentAccount (state aliceActive) = Some alice"
    "accounts (state aliceActive) = [alice, bob]"
    by (simp_all add: aliceActive_world)
  have ids: "session_did bobSession = did bob" "did bobFresh = did bob"
    by (simp_all add: bobSession_def bob_def bobFresh_def)
  have ref: "persistSession_refreshedAccount bob None = bob\<lparr>refreshJwt := None, accessJwt := None\<rparr>"
    "persistSession_expired ''create-failed''"
    by (simp_all add: persistSession_refreshedAccount_def persistSession_expired_def bob_def
        or_string_def or_string_opt_def or_bool_opt_def)
  note t1 = selectAccount_outcome [OF refl refl refl refl refl, of bobBackend bob aliceActive]
  note t2 = selectAccount_outcome [OF refl refl refl refl refl, of droppingBackend bob aliceActive]
  note t3 = selectAccount_outcome [OF refl refl refl refl refl, of offlineBackend bob aliceActive]
  have s1: "fst (selectAccount bobBackend bob aliceActive) = Inr ()
      \<and> currentAccount (state (snd (selectAccount bobBackend bob aliceActive))) = Some bobFresh
      \<and> isSwitchingAccounts (state (snd (selectAccount bobBackend bob aliceActive))) = False"
    using t1 ok bob_freshAccount by simp
  have r2: "fst (selectAccount droppingBackend bob aliceActive)
       = Inl (ClientFailure (RequestError ''invalid''))"
    using t2 dr by simp
  then have n2: "fst (selectAccount droppingBackend bob aliceActive) \<noteq> Inr ()" by simp
  have f2: "\<forall>rest event session.
      deliveredEvents droppingBackend bob = rest @ [(event, session)] \<longrightarrow>
        currentAccount (state (snd (selectAccount droppingBackend bob aliceActive)))
          = (if persistSession_expired event then None
             else Some (persistSession_refreshedAccount bob session))
        \<and> take 1 (accounts (state (snd (selectAccount droppingBackend bob aliceActive))))
          = [persistSession_refreshedAccount bob session]"
    using t2 n2 by blast
  have s2: "currentAccount (state (snd (selectAccount droppingBackend bob aliceActive))) = None
      \<and> take 1 (accounts (state (snd (selectAccount droppingBackend bob aliceActive))))
       = [bob\<lparr>refreshJwt := None, accessJwt := None\<rparr>]"
    using f2[rule_format, of "[]" "''create-failed''" None] delivered_examples(2) ref by simp
  have r3: "fst (selectAccount offlineBackend bob aliceActive) = Inl (ClientFailure NetworkError)"
    using t3 off by simp
  then have n3: "fst (selectAccount offlineBackend bob aliceActive) \<noteq> Inr ()" by simp
  have f3: "deliveredEvents offlineBackend bob = [] \<longrightarrow>
      currentAccount (state (snd (selectAccount offlineBackend bob aliceActive)))
        = currentAccount (state aliceActive)
      \<and> accounts (state (snd (selectAccount offlineBackend bob aliceActive)))
        = accounts (state aliceActive)"
    using t3 n3 by blast
  have s3: "currentAccount (state (snd (selectAccount offlineBackend bob aliceActive)))
         = Some alice
      \<and> accounts (state (snd (selectAccount offlineBackend bob aliceActive))) = [alice, bob]"
    using f3 delivered_examples(3) base by simp
  show ?thesis using s1 r2 s2 r3 s3 ids delivered_examples by simp
qed

text \<open>
  C6, as stated, fails in two ways. When the client reports the failed resume to the
  handler before it throws, \<open>selectAccount bob\<close> rejects, and the handler's upsert has unset
  the current account (it was \<open>alice\<close>) and moved \<open>bob\<close>, without tokens, to the head of
  the roster. And the provider does not compare the session's \<open>did\<close> with the requested
  account's: with a client that resumes into the session of \<open>alice\<close>, \<open>selectAccount bob\<close>
  resolves with \<open>alice\<close> current.
\<close>

theorem selectAccount_outcome_counterexample:
  "\<not> ((fst (selectAccount droppingBackend bob aliceActive) = Inr ()
         \<and> map_option did (currentAccount (state (snd (selectAccount droppingBackend bob aliceActive))))
             = Some (did bob))
      \<or> (fst (selectAccount droppingBackend bob aliceActive) \<noteq> Inr ()
         \<and> currentAccount (state (snd (selectAccount droppingBackend bob aliceActive)))
             = currentAccount (state aliceActive)
         \<and> accounts (state (snd (selectAccount droppingBackend bob aliceActive)))
             = accounts (state aliceActive)))
   \<and> \<not> ((fst (selectAccount aliceBackend bob aliceActive) = Inr ()
         \<and> map_option did (currentAccount (state (snd (selectAccount aliceBackend bob aliceActive))))
             = Some (did bob))
      \<or> (fst (selectAccount aliceBackend bob aliceActive) \<noteq> Inr ()
         \<and> currentAccount (state (snd (selectAccount aliceBackend bob aliceActive)))
             = currentAccount (state aliceActive)
         \<and> accounts (state (snd (selectAccount aliceBackend bob aliceActive)))
             = accounts (state aliceActive)))"
proof -
  have a: "currentAccount (state (snd (selectAccount droppingBackend bob aliceActive))) = None"
    unfolding dropped_switch by simp
  have b: "currentAccount (state aliceActive) = Some alice" by (simp add: aliceActive_world)
  have c: "fst (selectAccount droppingBackend bob aliceActive) \<noteq> Inr ()"
    by (simp add: selectAccount_def dropping_initSession Let_def)
  have d: "fst (selectAccount aliceBackend bob aliceActive) = Inr ()"
    "currentAccount (state (snd (selectAccount aliceBackend bob aliceActive))) = Some alice"
    by (simp_all add: alice_for_bob world_defs)
  have e: "did alice \<noteq> did bob" by (simp add: alice_def bob_def)
  show ?thesis using a b c d e by simp
qed

text \<open>
  C7. \<open>resumeSession\<close> always resolves: a failure of \<open>initSession\<close> is logged and not
  passed on. Whether the resume succeeded, failed or no account was given, it hands
  \<open>setState\<close> the updater that sets \<open>isInitialLoad\<close> to false exactly once, and
  \<open>isInitialLoad\<close> is false afterwards.
\<close>

theorem resumeSession_never_throws:
  "fst (resumeSession b account w) = Inr ()
   \<and> isInitialLoad (state (snd (resumeSession b account w))) = False
   \<and> count_list (setStateCalls (snd (resumeSession b account w))) (SetIsInitialLoad False)
       = Suc (count_list (setStateCalls w) (SetIsInitialLoad False))
   \<and> count_list (setStateCalls (snd (resumeSession b account w))) (SetIsInitialLoad True)
       = count_list (setStateCalls w) (SetIsInitialLoad True)
   \<and> errorLog (snd (resumeSession b account w))
       = (case account of
            None \<Rightarrow> errorLog w
          | Some a \<Rightarrow>
              (case fst (initSession b a w) of
                 Inl e \<Rightarrow> errorLog w @ [''session: resumeSession failed'']
               | Inr u \<Rightarrow> errorLog w))"
proof (cases account)
  case None
  then show ?thesis
    by (simp add: resumeSession_def Let_def setState_def)
next
  case (Some a)
  obtain r w1 where res: "initSession b a w = (r, w1)" by (cases "initSession b a w")
  have fr: "count_list (setStateCalls w1) (SetIsInitialLoad x)
              = count_list (setStateCalls w) (SetIsInitialLoad x)"
       "errorLog w1 = errorLog w" for x
    using initSession_log_frame[of b a w x] res by simp_all
  show ?thesis
    using Some res fr
    by (cases r) (simp_all add: resumeSession_def Let_def setState_def logger_error_def)
qed

theorem resumeSession_never_throws_witness:
  "fst (resumeSession offlineBackend (Some bob) aliceActive) = Inr ()
   \<and> isInitialLoad (state (snd (resumeSession offlineBackend (Some bob) aliceActive))) = False
   \<and> count_list (setStateCalls aliceActive) (SetIsInitialLoad False) = 1
   \<and> count_list (setStateCalls (snd (resumeSession offlineBackend (Some bob) aliceActive)))
        (SetIsInitialLoad False) = 2
   \<and> errorLog (snd (resumeSession offlineBackend (Some bob) aliceActive))
        = [''session: resumeSession failed'']
   \<and> fst (resumeSession offlineBackend None aliceActive) = Inr ()
   \<and> count_list (setStateCalls (snd (resumeSession offlineBackend None aliceActive)))
        (SetIsInitialLoad False) = 2"
  using resumeSession_never_throws [of offlineBackend "Some bob" aliceActive]
    resumeSession_never_throws [of offlineBackend None aliceActive]
  by (simp add: offline_initSession) (simp add: aliceActive_world)




text \<open>
  C9. On an external persistence update the listener calls \<open>initSession\<close> once, for the
  persisted current account, when that account's \<open>did\<close> differs from the \<open>did\<close> of the
  in-memory current account (also when there is none in memory); it calls
  \<open>clearCurrentAccount\<close> when the persisted record has no current account and the state
  has one; it calls neither when the two \<open>did\<close>s are equal or when neither side has a
  current account.
\<close>

theorem onUpdate_decision:
  "(\<forall>p. persisted_currentAccount session = Some p
         \<and> map_option did (currentAccount (state w)) \<noteq> Some (did p)
       \<longrightarrow> onUpdate_calls session (state w) = [CallInitSession p]
           \<and> onUpdate b session w = snd (initSession b p w))
   \<and> (persisted_currentAccount session = None \<and> currentAccount (state w) \<noteq> None
       \<longrightarrow> onUpdate_calls session (state w) = [CallClearCurrentAccount]
           \<and> onUpdate b session w = clearCurrentAccount w)
   \<and> ((\<exists>p c. persisted_currentAccount session = Some p \<and> currentAccount (state w) = Some c
               \<and> did p = did c)
        \<or> (persisted_currentAccount session = None \<and> currentAccount (state w) = None)
       \<longrightarrow> onUpdate_calls session (state w) = [] \<and> onUpdate b session w = w)"
  by (auto simp: onUpdate_def onUpdate_calls_def split: option.splits)

theorem onUpdate_decision_witness:
  "onUpdate_calls \<lparr>persisted_accounts = [bob, alice], persisted_currentAccount = Some bob\<rparr>
       (state aliceActive) = [CallInitSession bob]
   \<and> onUpdate_calls \<lparr>persisted_accounts = [bob, alice], persisted_currentAccount = Some bob\<rparr>
       (state (initialWorld [alice, bob])) = [CallInitSession bob]
   \<and> onUpdate_calls \<lparr>persisted_accounts = [alice, bob], persisted_currentAccount = None\<rparr>
       (state aliceActive) = [CallClearCurrentAccount]
   \<and> onUpdate_calls \<lparr>persisted_accounts = [alice, bob], persisted_currentAccount = Some alice\<rparr>
       (state aliceActive) = []
   \<and> onUpdate_calls \<lparr>persisted_accounts = [alice, bob], persisted_currentAccount = None\<rparr>
       (state (initialWorld [alice, bob])) = []"
proof -
  have cur: "currentAccount (state aliceActive) = Some alice"
    "currentAccount (state (initialWorld [alice, bob])) = None"
    by (simp_all add: aliceActive_world initialWorld_def initialState_def)
  have ne: "did alice \<noteq> did bob" by (simp add: alice_def bob_def)
  show ?thesis
    using cur ne
      onUpdate_decision [of "\<lparr>persisted_accounts = [bob, alice], persisted_currentAccount = Some bob\<rparr>"
        aliceActive aliceBackend]
      onUpdate_decision [of "\<lparr>persisted_accounts = [bob, alice], persisted_currentAccount = Some bob\<rparr>"
        "initialWorld [alice, bob]" aliceBackend]
      onUpdate_decision [of "\<lparr>persisted_accounts = [alice, bob], persisted_currentAccount = None\<rparr>"
        aliceActive aliceBackend]
      onUpdate_decision [of "\<lparr>persisted_accounts = [alice, bob], persisted_currentAccount = Some alice\<rparr>"
        aliceActive aliceBackend]
      onUpdate_decision [of "\<lparr>persisted_accounts = [alice, bob], persisted_currentAccount = None\<rparr>"
        "initialWorld [alice, bob]" aliceBackend]
    by simp
qed

text \<open>
  C10. With JavaScript numbers as IEEE-754 doubles: for every input dimensions and max
  dimensions, \<open>getUploadDimensions\<close> returns the input width and height when the width
  is strictly below the maximum width and the height strictly below the maximum height,
  and otherwise (so also when a side equals its maximum) it returns
  \<open>getResizedDimensions as POST_IMG_MAX.width\<close>. The multipliers are the double nearest
  4/3 for 4:3, 1 for 1:1, 3/4 for 3:4 and, for None, the image's width divided by its
  height. When the multiplier is \<open>NaN\<close> the result has the maximum as width and \<open>NaN\<close> as
  height. For \<open>POST_IMG_MAX.width\<close> a positive finite double: when the multiplier is not
  \<open>NaN\<close>, the longer side of the resized dimensions is that maximum; their
  width-to-height ratio is 1 when the multiplier equals 1; it is the multiplier for 3:4
  and 4:3 when the shorter side comes out as exactly three quarters of the maximum; and
  for a positive finite multiplier in the normal range it lies within a relative error
  of \<open>2^-51\<close> of the multiplier.
\<close>

theorem getUploadDimensions_result:
  assumes "maxD = (case maxDimensions of None \<Rightarrow> POST_IMG_MAX | Some m \<Rightarrow> m)"
    and "out = getUploadDimensions POST_IMG_MAX img d maxDimensions as"
    and "res = getResizedDimensions img as (width POST_IMG_MAX)"
    and "r = ratioMultipliers img (as_or_default as)"
  shows "(jslt (width d) (width maxD) \<and> jslt (height d) (height maxD) \<longrightarrow> out = d)
       \<and> (\<not> (jslt (width d) (width maxD) \<and> jslt (height d) (height maxD)) \<longrightarrow> out = res)
       \<and> ratioMultipliers img Ratio_4_3 = jsdiv (posnum 4) (posnum 3)
       \<and> jsdiv (posnum 4) (posnum 3) = posnum (6004799503160661 / 4503599627370496)
       \<and> ratioMultipliers img Ratio_1_1 = posnum 1
       \<and> ratioMultipliers img Ratio_3_4 = jsdiv (posnum 3) (posnum 4)
       \<and> jsdiv (posnum 3) (posnum 4) = posnum (3 / 4)
       \<and> ratioMultipliers img Ratio_None = jsdiv (image_width img) (image_height img)
       \<and> (r = NaN \<longrightarrow> res = \<lparr>width = width POST_IMG_MAX, height = NaN\<rparr>)
       \<and> (\<forall>m. width POST_IMG_MAX = posnum m \<and> isDouble (posnum m) \<longrightarrow>
             (isDouble (image_width img) \<and> isDouble (image_height img) \<and> r \<noteq> NaN
                \<longrightarrow> longerSideIs (posnum m) res)
           \<and> (jseq r (posnum 1) \<longrightarrow> ratioOf res = posnum 1)
           \<and> (as_or_default as = Ratio_3_4 \<and> jsmul (posnum m) r = posnum (m * (3 / 4))
                \<longrightarrow> ratioOf res = r)
           \<and> (as_or_default as = Ratio_4_3 \<and> jsdiv (posnum m) r = posnum (m * (3 / 4))
                \<longrightarrow> ratioOf res = r)
           \<and> (\<forall>r0. r = posnum r0 \<and> normalRange m r0
                \<longrightarrow> (\<exists>q. ratioOf res = posnum q \<and> \<bar>q - r0\<bar> \<le> r0 * pow2 (- 51))))"
proof -
  have a: "jslt (width d) (width maxD) \<and> jslt (height d) (height maxD) \<longrightarrow> out = d"
    using assms(1,2) by (simp add: getUploadDimensions_cases)
  have b: "\<not> (jslt (width d) (width maxD) \<and> jslt (height d) (height maxD)) \<longrightarrow> out = res"
    using assms(1,2,3) by (simp add: getUploadDimensions_cases)
  have c: "ratioMultipliers img Ratio_4_3 = jsdiv (posnum 4) (posnum 3)"
    "ratioMultipliers img Ratio_1_1 = posnum 1"
    "ratioMultipliers img Ratio_3_4 = jsdiv (posnum 3) (posnum 4)"
    "ratioMultipliers img Ratio_None = jsdiv (image_width img) (image_height img)"
    by (simp_all add: ratioMultipliers_def)
  have v: "jsdiv (posnum 4) (posnum 3) = posnum (6004799503160661 / 4503599627370496)"
    "jsdiv (posnum 3) (posnum 4) = posnum (3 / 4)"
    by (simp_all add: posnum_def rd_4_3 rd_3_4)
  have n: "r = NaN \<longrightarrow> res = \<lparr>width = width POST_IMG_MAX, height = NaN\<rparr>"
    using assms(3,4) resized_NaN[of img as "width POST_IMG_MAX"] by simp
  have e: "\<forall>m. width POST_IMG_MAX = posnum m \<and> isDouble (posnum m) \<longrightarrow>
             (isDouble (image_width img) \<and> isDouble (image_height img) \<and> r \<noteq> NaN
                \<longrightarrow> longerSideIs (posnum m) res)
           \<and> (jseq r (posnum 1) \<longrightarrow> ratioOf res = posnum 1)
           \<and> (as_or_default as = Ratio_3_4 \<and> jsmul (posnum m) r = posnum (m * (3 / 4))
                \<longrightarrow> ratioOf res = r)
           \<and> (as_or_default as = Ratio_4_3 \<and> jsdiv (posnum m) r = posnum (m * (3 / 4))
                \<longrightarrow> ratioOf res = r)
           \<and> (\<forall>r0. r = posnum r0 \<and> normalRange m r0
                \<longrightarrow> (\<exists>q. ratioOf res = posnum q \<and> \<bar>q - r0\<bar> \<le> r0 * pow2 (- 51)))"
  proof (intro allI impI, elim conjE)
    fix m
    assume w: "width POST_IMG_MAX = posnum m" and dm: "isDouble (posnum m)"
    have m: "0 < m" "roundDouble m = MFinite m" using dm by (simp_all add: isDouble_def posnum_def)
    have res: "res = getResizedDimensions img as (posnum m)" using assms(3) w by simp
    have e1: "isDouble (image_width img) \<and> isDouble (image_height img) \<and> r \<noteq> NaN
                \<longrightarrow> longerSideIs (posnum m) res"
      using resized_longer_side[OF m, of img as] assms(4) res
      by (simp add: isDouble_positive)
    have e2: "jseq r (posnum 1) \<longrightarrow> ratioOf res = posnum 1"
      using ratio_one[OF m(1), of img as] assms(4) res by (simp add: ratioOf_def)
    have e3: "as_or_default as = Ratio_3_4 \<and> jsmul (posnum m) r = posnum (m * (3 / 4))
                \<longrightarrow> ratioOf res = r"
      using ratio_exact_3_4[OF m(1), of as img] assms(4) res by (auto simp: ratioOf_def)
    have e4: "as_or_default as = Ratio_4_3 \<and> jsdiv (posnum m) r = posnum (m * (3 / 4))
                \<longrightarrow> ratioOf res = r"
      using ratio_exact_4_3[OF m(1), of as img] assms(4) res by (auto simp: ratioOf_def)
    have e5: "\<forall>r0. r = posnum r0 \<and> normalRange m r0
                \<longrightarrow> (\<exists>q. ratioOf res = posnum q \<and> \<bar>q - r0\<bar> \<le> r0 * pow2 (- 51))"
    proof (intro allI impI, elim conjE)
      fix r0
      assume r0: "r = posnum r0" and nr: "normalRange m r0"
      have "ratioMultipliers img (as_or_default as) = posnum r0" using r0 assms(4) by simp
      from ratio_near[OF m(1) _ _ _ _ _ this, of ] nr
      show "\<exists>q. ratioOf res = posnum q \<and> \<bar>q - r0\<bar> \<le> r0 * pow2 (- 51)"
        unfolding res ratioOf_def normalRange_def by blast
    qed
    show "(isDouble (image_width img) \<and> isDouble (image_height img) \<and> r \<noteq> NaN
                \<longrightarrow> longerSideIs (posnum m) res)
           \<and> (jseq r (posnum 1) \<longrightarrow> ratioOf res = posnum 1)
           \<and> (as_or_default as = Ratio_3_4 \<and> jsmul (posnum m) r = posnum (m * (3 / 4))
                \<longrightarrow> ratioOf res = r)
           \<and> (as_or_default as = Ratio_4_3 \<and> jsdiv (posnum m) r = posnum (m * (3 / 4))
                \<longrightarrow> ratioOf res = r)
           \<and> (\<forall>r0. r = posnum r0 \<and> normalRange m r0
                \<longrightarrow> (\<exists>q. ratioOf res = posnum q \<and> \<bar>q - r0\<bar> \<le> r0 * pow2 (- 51)))"
      using e1 e2 e3 e4 e5 by blast
  qed
  show ?thesis using a b c v n e by blast
qed

theorem getUploadDimensions_result_witness:
  "getUploadDimensions max2000 smallImage (ownDimensions smallImage) None None
     = ownDimensions smallImage
   \<and> getUploadDimensions max2000 wideImage (ownDimensions wideImage) None (Some Ratio_4_3)
       = \<lparr>width = posnum 2000, height = posnum 1500\<rparr>
   \<and> longerSideIs (posnum 2000) \<lparr>width = posnum 2000, height = posnum 1500\<rparr>
   \<and> ratioOf \<lparr>width = posnum 2000, height = posnum 1500\<rparr> = ratioMultipliers wideImage Ratio_4_3
   \<and> getUploadDimensions max2000 wideImage (ownDimensions wideImage) None (Some Ratio_3_4)
       = \<lparr>width = posnum 1500, height = posnum 2000\<rparr>
   \<and> ratioOf \<lparr>width = posnum 1500, height = posnum 2000\<rparr> = ratioMultipliers wideImage Ratio_3_4
   \<and> getUploadDimensions max2000 wideImage (ownDimensions wideImage) None (Some Ratio_1_1)
       = \<lparr>width = posnum 2000, height = posnum 2000\<rparr>
   \<and> ratioOf \<lparr>width = posnum 2000, height = posnum 2000\<rparr> = posnum 1
   \<and> getUploadDimensions max2000 flatImage (ownDimensions flatImage) None None
       = \<lparr>width = posnum 2000, height = Number False MZero\<rparr>
   \<and> longerSideIs (posnum 2000) \<lparr>width = posnum 2000, height = Number False MZero\<rparr>
   \<and> getResizedDimensions emptyImage None (posnum 2000) = \<lparr>width = posnum 2000, height = NaN\<rparr>
   \<and> (\<exists>q. ratioOf (getUploadDimensions max2000 photo (ownDimensions photo) None None) = posnum q
          \<and> \<bar>q - 6505199461757383 / 4503599627370496\<bar>
              \<le> 6505199461757383 / 4503599627370496 * pow2 (- 51))"
proof -
  have m: "width max2000 = posnum 2000 \<and> isDouble (posnum 2000)"
    by (simp add: max2000_def isDouble_2000)
  have w: "width max2000 = posnum 2000" by (simp add: max2000_def)
  have sides: "isDouble (image_width wideImage)" "isDouble (image_height wideImage)"
    "isDouble (image_width flatImage)" "isDouble (image_height flatImage)"
    using isDouble_sides by (simp_all add: wideImage_def flatImage_def imageOf_def)
  have as: "as_or_default (Some Ratio_4_3) = Ratio_4_3" "as_or_default (Some Ratio_3_4) = Ratio_3_4"
    "as_or_default (Some Ratio_1_1) = Ratio_1_1" "as_or_default None = Ratio_None"
    by (simp_all add: as_or_default_def)
  have mult: "ratioMultipliers wideImage Ratio_4_3 \<noteq> NaN"
    "jseq (ratioMultipliers wideImage Ratio_1_1) (posnum 1)"
    "ratioMultipliers flatImage Ratio_None \<noteq> NaN"
    by (simp_all add: ratio_4_3 flat_multiplier ratioMultipliers_def[of _ Ratio_1_1] posnum_def)
  note small = getUploadDimensions_result[OF refl refl refl refl,
      of "ownDimensions smallImage" max2000 None smallImage None]
  have w1: "getUploadDimensions max2000 smallImage (ownDimensions smallImage) None None
     = ownDimensions smallImage"
    using small small_upload_cond by simp
  note w43 = getUploadDimensions_result[OF refl refl refl refl,
      of "ownDimensions wideImage" max2000 None wideImage "Some Ratio_4_3",
      unfolded w wide_resized as option.case]
  have w2: "getUploadDimensions max2000 wideImage (ownDimensions wideImage) None (Some Ratio_4_3)
       = \<lparr>width = posnum 2000, height = posnum 1500\<rparr>"
    using w43 wide_not_below[unfolded w] by blast
  note l43 = last_of_ten[OF w43, rule_format, of 2000]
  have w3: "longerSideIs (posnum 2000) \<lparr>width = posnum 2000, height = posnum 1500\<rparr>"
    using l43 isDouble_2000 sides mult by blast
  have w4: "ratioOf \<lparr>width = posnum 2000, height = posnum 1500\<rparr>
      = ratioMultipliers wideImage Ratio_4_3"
    using l43 isDouble_2000 wide_height_4_3 by blast
  note w34 = getUploadDimensions_result[OF refl refl refl refl,
      of "ownDimensions wideImage" max2000 None wideImage "Some Ratio_3_4",
      unfolded w wide_resized as option.case]
  have w5: "getUploadDimensions max2000 wideImage (ownDimensions wideImage) None (Some Ratio_3_4)
       = \<lparr>width = posnum 1500, height = posnum 2000\<rparr>"
    using w34 wide_not_below[unfolded w] by blast
  note l34 = last_of_ten[OF w34, rule_format, of 2000]
  have w6: "ratioOf \<lparr>width = posnum 1500, height = posnum 2000\<rparr>
      = ratioMultipliers wideImage Ratio_3_4"
    using l34 isDouble_2000 wide_width_3_4 by blast
  note w11 = getUploadDimensions_result[OF refl refl refl refl,
      of "ownDimensions wideImage" max2000 None wideImage "Some Ratio_1_1",
      unfolded w wide_resized as option.case]
  have w7: "getUploadDimensions max2000 wideImage (ownDimensions wideImage) None (Some Ratio_1_1)
       = \<lparr>width = posnum 2000, height = posnum 2000\<rparr>"
    using w11 wide_not_below[unfolded w] by blast
  note l11 = last_of_ten[OF w11, rule_format, of 2000]
  have w8: "ratioOf \<lparr>width = posnum 2000, height = posnum 2000\<rparr> = posnum 1"
    using l11 isDouble_2000 mult by blast
  have fres: "getResizedDimensions flatImage None (posnum 2000)
      = \<lparr>width = posnum 2000, height = Number False MZero\<rparr>"
    by (simp add: getResizedDimensions_def as_or_default_def flat_multiplier posnum_def)
  note flat = getUploadDimensions_result[OF refl refl refl refl,
      of "ownDimensions flatImage" max2000 None flatImage None,
      unfolded w fres as option.case]
  have w9: "getUploadDimensions max2000 flatImage (ownDimensions flatImage) None None
       = \<lparr>width = posnum 2000, height = Number False MZero\<rparr>"
    using flat flat_not_below[unfolded w] by blast
  note lflat = last_of_ten[OF flat, rule_format, of 2000]
  have w10: "longerSideIs (posnum 2000) \<lparr>width = posnum 2000, height = Number False MZero\<rparr>"
    using lflat isDouble_2000 sides mult by blast
  note empty = getUploadDimensions_result[OF refl refl refl refl,
      of max2000 max2000 None emptyImage None, unfolded w as option.case]
  have w11': "getResizedDimensions emptyImage None (posnum 2000)
      = \<lparr>width = posnum 2000, height = NaN\<rparr>"
    using empty empty_multiplier by blast
  note ph = getUploadDimensions_result[OF refl refl refl refl,
      of "ownDimensions photo" max2000 None photo None, unfolded as option.case]
  have pres: "getResizedDimensions photo None (width max2000)
      = getUploadDimensions max2000 photo (ownDimensions photo) None None"
    using ph photo_not_below by simp
  note lph = last_of_ten[OF ph, rule_format, OF m, unfolded pres]
  have w12: "\<exists>q. ratioOf (getUploadDimensions max2000 photo (ownDimensions photo) None None)
              = posnum q
          \<and> \<bar>q - 6505199461757383 / 4503599627370496\<bar>
              \<le> 6505199461757383 / 4503599627370496 * pow2 (- 51)"
    using lph photo_normalRange photo_multiplier by blast
  show ?thesis using w1 w2 w3 w4 w5 w6 w7 w8 w9 w10 w11' w12 by blast
qed

text \<open>
  The ratio of the resized dimensions is not the multiplier in general. A 2600 by 1800
  image at a maximum of 2000 has the multiplier 6505199461757383 / 2^52 and is resized
  to a height of 6089602861528615 / 2^42, and 2000 divided by that height is
  6505199461757384 / 2^52, as a double and also as a real number not the multiplier.
  An image of 0 by 0 has the multiplier \<open>NaN\<close> and is resized to a height of \<open>NaN\<close>, so
  that no side is the longer one. For the ratio 3:4 at a maximum of 2^53 - 2 the width is
  rounded and the ratio is the double below 3/4; for the ratio 4:3 at a maximum of
  7000000000000003 the height is rounded and the ratio is the double below the
  multiplier. For a subnormal multiplier, 3 * 2^-1074 at a maximum of 1/2, the ratio of
  the result is 4 * 2^-1074. Every side and maximum of these examples is a double
  (\<open>example_doubles\<close>).
\<close>

theorem getUploadDimensions_result_counterexample:
  "getUploadDimensions max2000 photo (ownDimensions photo) None None
     = \<lparr>width = posnum 2000, height = posnum (6089602861528615 / 4398046511104)\<rparr>
   \<and> ratioMultipliers photo Ratio_None = posnum (6505199461757383 / 4503599627370496)
   \<and> ratioOf (getUploadDimensions max2000 photo (ownDimensions photo) None None)
       = posnum (813149932719673 / 562949953421312)
   \<and> \<not> jseq (ratioOf (getUploadDimensions max2000 photo (ownDimensions photo) None None))
         (ratioMultipliers photo Ratio_None)
   \<and> (2000 / (6089602861528615 / 4398046511104) :: real)
       \<noteq> 6505199461757383 / 4503599627370496
   \<and> getUploadDimensions max2000 emptyImage max2000 None None
       = \<lparr>width = posnum 2000, height = NaN\<rparr>
   \<and> \<not> longerSideIs (posnum 2000) (getUploadDimensions max2000 emptyImage max2000 None None)
   \<and> \<not> jseq (ratioOf (getUploadDimensions max2000 emptyImage max2000 None None))
         (ratioMultipliers emptyImage Ratio_None)
   \<and> \<not> jseq (ratioOf (getUploadDimensions maxHuge wideImage (ownDimensions wideImage)
           (Some max2000) (Some Ratio_3_4))) (ratioMultipliers wideImage Ratio_3_4)
   \<and> \<not> jseq (ratioOf (getUploadDimensions maxLarge wideImage (ownDimensions wideImage)
           (Some max2000) (Some Ratio_4_3))) (ratioMultipliers wideImage Ratio_4_3)
   \<and> ratioMultipliers tinyImage Ratio_None = posnum (3 * pow2 (- 1074))
   \<and> ratioOf (getUploadDimensions maxHalf tinyImage (ownDimensions tinyImage) None None)
       = posnum (4 * pow2 (- 1074))
   \<and> \<not> \<bar>4 * pow2 (- 1074) - 3 * pow2 (- 1074)\<bar> \<le> 3 * pow2 (- 1074) * pow2 (- 51)"
proof -
  have a: "\<not> jseq (ratioOf (getUploadDimensions max2000 photo (ownDimensions photo) None None))
         (ratioMultipliers photo Ratio_None)"
    by (simp add: photo_ratio photo_multiplier posnum_def)
  have a': "(2000 / (6089602861528615 / 4398046511104) :: real)
       \<noteq> 6505199461757383 / 4503599627370496"
    by simp
  have b: "\<not> longerSideIs (posnum 2000)
      (getUploadDimensions max2000 emptyImage max2000 None None)"
    by (simp add: empty_upload longerSideIs_def jsle_def posnum_def)
  have c: "\<not> jseq (ratioOf (getUploadDimensions max2000 emptyImage max2000 None None))
         (ratioMultipliers emptyImage Ratio_None)"
    by (simp add: empty_upload ratioOf_def posnum_def)
  show ?thesis
    using photo_upload photo_multiplier photo_ratio a a' empty_upload b c huge_differs
      large_differs tiny_multiplier tiny_ratio tiny_error by blast
qed

end
